theory Spec2Isabelle
  imports Main "HOL-Library.Word"
begin

section \<open>JavaScript strings\<close>

text \<open>
  A JavaScript string is modelled as a \<^typ>\<open>string\<close>; each \<^typ>\<open>char\<close> stands for one
  UTF-16 code unit in the range 0..255, so \<open>length\<close> is the \<open>.length\<close> of the source.
  Character classes are written out as the list of their members.
\<close>

text \<open>The white space and line terminator code units of ECMAScript below 256
  (\<open>\s\<close> in a regular expression, and what \<open>String.prototype.trim\<close> removes):
  TAB, LF, VT, FF, CR, SPACE and NBSP.\<close>

definition whiteSpace :: "char list" where
  "whiteSpace = [CHR 0x09, CHR 0x0A, CHR 0x0B, CHR 0x0C, CHR 0x0D, CHR 0x20, CHR 0xA0]"

definition isWhiteSpace :: "char \<Rightarrow> bool" where
  "isWhiteSpace c = (c \<in> set whiteSpace)"

text \<open>Line terminators (what \<open>.\<close> does not match): LF and CR.\<close>

definition lineTerminators :: "char list" where
  "lineTerminators = [CHR 0x0A, CHR 0x0D]"

definition digits :: "char list" where
  "digits = ''0123456789''"

definition lowerLetters :: "char list" where
  "lowerLetters = ''abcdefghijklmnopqrstuvwxyz''"

definition upperLetters :: "char list" where
  "upperLetters = ''ABCDEFGHIJKLMNOPQRSTUVWXYZ''"

text \<open>\<open>\w\<close>: ASCII letters, digits and the underscore.\<close>

definition wordChars :: "char list" where
  "wordChars = lowerLetters @ upperLetters @ digits @ ''_''"

definition trim :: "string \<Rightarrow> string" where
  "trim s = rev (dropWhile isWhiteSpace (rev (dropWhile isWhiteSpace s)))"

definition startsWith :: "string \<Rightarrow> string \<Rightarrow> bool" where
  "startsWith s p = (take (length p) s = p)"

text \<open>The capital letters of Latin-1 (code units 0xC0 to 0xDE without the multiplication
  sign) and their small letters, in the same order.\<close>

definition upperLatin1 :: "char list" where
  "upperLatin1 =
     [CHR 0xC0, CHR 0xC1, CHR 0xC2, CHR 0xC3, CHR 0xC4, CHR 0xC5, CHR 0xC6, CHR 0xC7] @
      [CHR 0xC8, CHR 0xC9, CHR 0xCA, CHR 0xCB, CHR 0xCC, CHR 0xCD, CHR 0xCE, CHR 0xCF] @
      [CHR 0xD0, CHR 0xD1, CHR 0xD2, CHR 0xD3, CHR 0xD4, CHR 0xD5, CHR 0xD6, CHR 0xD8] @
      [CHR 0xD9, CHR 0xDA, CHR 0xDB, CHR 0xDC, CHR 0xDD, CHR 0xDE]"

definition lowerLatin1 :: "char list" where
  "lowerLatin1 =
     [CHR 0xE0, CHR 0xE1, CHR 0xE2, CHR 0xE3, CHR 0xE4, CHR 0xE5, CHR 0xE6, CHR 0xE7] @
      [CHR 0xE8, CHR 0xE9, CHR 0xEA, CHR 0xEB, CHR 0xEC, CHR 0xED, CHR 0xEE, CHR 0xEF] @
      [CHR 0xF0, CHR 0xF1, CHR 0xF2, CHR 0xF3, CHR 0xF4, CHR 0xF5, CHR 0xF6, CHR 0xF8] @
      [CHR 0xF9, CHR 0xFA, CHR 0xFB, CHR 0xFC, CHR 0xFD, CHR 0xFE]"

text \<open>\<open>toLowerCase\<close> and \<open>toUpperCase\<close>, code unit by code unit. The capital form of the
  sharp s is the two code units \<open>SS\<close>. (Of the code units below 256, the micro sign and the y
  with diaeresis have their capital form above 255, which a \<open>char\<close> does not hold;
  \<open>toUpperCase\<close> leaves these two as they are here.)\<close>

definition lowerChar :: "char \<Rightarrow> char" where
  "lowerChar c =
     (case map_of (zip (upperLetters @ upperLatin1) (lowerLetters @ lowerLatin1)) c of
        Some l \<Rightarrow> l | None \<Rightarrow> c)"

definition upperChar :: "char \<Rightarrow> char" where
  "upperChar c =
     (case map_of (zip (lowerLetters @ lowerLatin1) (upperLetters @ upperLatin1)) c of
        Some u \<Rightarrow> u | None \<Rightarrow> c)"

definition toLowerCase :: "string \<Rightarrow> string" where
  "toLowerCase s = map lowerChar s"

definition upperUnits :: "char \<Rightarrow> string" where
  "upperUnits c = (if c = CHR 0xDF then ''SS'' else [upperChar c])"

definition toUpperCase :: "string \<Rightarrow> string" where
  "toUpperCase s = concat (map upperUnits s)"

text \<open>\<open>s.split('\n')\<close>: the pieces between line feeds; an empty string gives one empty piece.\<close>

fun split_acc :: "char \<Rightarrow> string \<Rightarrow> string \<Rightarrow> string list" where
  "split_acc d cur [] = [rev cur]"
| "split_acc d cur (c # cs) =
     (if c = d then rev cur # split_acc d [] cs else split_acc d (c # cur) cs)"

definition split :: "string \<Rightarrow> char \<Rightarrow> string list" where
  "split s d = split_acc d [] s"

section \<open>Regular expressions\<close>

text \<open>
  The regular expressions of the source are transcribed into this syntax tree and run by
  a backtracking matcher that lists the possible results in the priority order of
  ECMAScript (greedy quantifiers, left alternative first); the first result is the match.
  \<open>Lit c\<close> is the character \<open>c\<close>, \<open>LitI c\<close> the same under the \<open>i\<close> flag, \<open>Cls cs\<close> the
  class \<open>[cs]\<close>, \<open>NCls cs\<close> the class \<open>[^cs]\<close>, \<open>Bol\<close> and \<open>Eol\<close> are \<open>^\<close> and \<open>$\<close>,
  \<open>BolM\<close> is \<open>^\<close> under the \<open>m\<close> flag, \<open>WordB\<close> is \<open>\b\<close>, \<open>Rep m n r\<close> is \<open>r{m,n}\<close>
  and \<open>Grp k r\<close> is the \<open>k\<close>-th capturing group.
\<close>

datatype regex =
    Lit char
  | LitI char
  | Cls "char list"
  | NCls "char list"
  | Bol
  | Eol
  | BolM
  | WordB
  | Seq regex regex
  | Alt regex regex
  | Rep nat "nat option" regex
  | Grp nat regex

text \<open>A matcher state: the position, the code unit before it, the input from it on, and
  the text captured by the groups so far.\<close>

type_synonym captures = "(nat \<times> string) list"
type_synonym mstate = "nat \<times> char option \<times> string \<times> captures"

definition st_pos :: "mstate \<Rightarrow> nat" where
  "st_pos st = fst st"

definition st_prev :: "mstate \<Rightarrow> char option" where
  "st_prev st = fst (snd st)"

definition st_rest :: "mstate \<Rightarrow> string" where
  "st_rest st = fst (snd (snd st))"

definition st_caps :: "mstate \<Rightarrow> captures" where
  "st_caps st = snd (snd (snd st))"

definition step1 :: "(char \<Rightarrow> bool) \<Rightarrow> mstate \<Rightarrow> mstate list" where
  "step1 P st =
     (case st_rest st of [] \<Rightarrow> []
      | c # cs \<Rightarrow> if P c then [(Suc (st_pos st), Some c, cs, st_caps st)] else [])"

text \<open>Greedy repetition between \<open>m\<close> and \<open>n\<close> times; an iteration must consume input.\<close>

fun rep_iter :: "(mstate \<Rightarrow> mstate list) \<Rightarrow> nat \<Rightarrow> nat \<Rightarrow> nat option \<Rightarrow> mstate \<Rightarrow> mstate list" where
  "rep_iter f 0 m n st = (if m = 0 then [st] else [])"
| "rep_iter f (Suc fuel) m n st =
     (if n = Some 0 then [st]
      else concat (map (rep_iter f fuel (m - 1) (map_option (\<lambda>k. k - 1) n))
                       (filter (\<lambda>st'. st_pos st < st_pos st') (f st)))
           @ (if m = 0 then [st] else []))"

definition isWordAt :: "char option \<Rightarrow> bool" where
  "isWordAt x = (case x of None \<Rightarrow> False | Some c \<Rightarrow> c \<in> set wordChars)"

definition nextChar :: "mstate \<Rightarrow> char option" where
  "nextChar st = (case st_rest st of [] \<Rightarrow> None | c # _ \<Rightarrow> Some c)"

definition setCapture :: "nat \<Rightarrow> mstate \<Rightarrow> mstate \<Rightarrow> mstate" where
  "setCapture k st st' =
     (st_pos st', st_prev st', st_rest st',
      (k, take (st_pos st' - st_pos st) (st_rest st)) # st_caps st')"

primrec ms :: "regex \<Rightarrow> mstate \<Rightarrow> mstate list" where
  "ms (Lit c) = step1 (\<lambda>x. x = c)"
| "ms (LitI c) = step1 (\<lambda>x. lowerChar x = lowerChar c)"
| "ms (Cls cs) = step1 (\<lambda>x. x \<in> set cs)"
| "ms (NCls cs) = step1 (\<lambda>x. x \<notin> set cs)"
| "ms Bol = (\<lambda>st. if st_prev st = None then [st] else [])"
| "ms Eol = (\<lambda>st. if st_rest st = [] then [st] else [])"
| "ms BolM = (\<lambda>st. case st_prev st of None \<Rightarrow> [st]
                     | Some c \<Rightarrow> if c \<in> set lineTerminators then [st] else [])"
| "ms WordB = (\<lambda>st. if isWordAt (st_prev st) \<noteq> isWordAt (nextChar st) then [st] else [])"
| "ms (Seq a b) = (\<lambda>st. concat (map (ms b) (ms a st)))"
| "ms (Alt a b) = (\<lambda>st. ms a st @ ms b st)"
| "ms (Rep m n r) = (\<lambda>st. rep_iter (ms r) (Suc (length (st_rest st))) m n st)"
| "ms (Grp k r) = (\<lambda>st. map (setCapture k st) (ms r st))"

text \<open>A match: where it starts, where it ends, and the capture groups.\<close>

record rmatch =
  m_start :: nat
  m_end :: nat
  m_caps :: captures

definition matchAt :: "regex \<Rightarrow> mstate \<Rightarrow> rmatch option" where
  "matchAt r st =
     (case ms r (st_pos st, st_prev st, st_rest st, []) of [] \<Rightarrow> None
      | st' # _ \<Rightarrow> Some \<lparr>m_start = st_pos st, m_end = st_pos st', m_caps = st_caps st'\<rparr>)"

text \<open>The search of \<open>exec\<close>: the first start position, from the given state on, that matches.\<close>

fun search :: "regex \<Rightarrow> nat \<Rightarrow> char option \<Rightarrow> string \<Rightarrow> rmatch option" where
  "search r i p [] = matchAt r (i, p, [], [])"
| "search r i p (c # cs) =
     (case matchAt r (i, p, c # cs, []) of Some m \<Rightarrow> Some m
      | None \<Rightarrow> search r (Suc i) (Some c) cs)"

text \<open>\<open>regex.test(s)\<close> and \<open>s.match(regex)\<close> for a regular expression without the \<open>g\<close> flag.\<close>

definition rx_match :: "regex \<Rightarrow> string \<Rightarrow> rmatch option" where
  "rx_match r s = search r 0 None s"

definition rx_test :: "regex \<Rightarrow> string \<Rightarrow> bool" where
  "rx_test r s = (rx_match r s \<noteq> None)"

text \<open>The text of capture group \<open>k\<close> of a match (\<open>None\<close>: the group did not take part).\<close>

definition group :: "rmatch \<Rightarrow> nat \<Rightarrow> string option" where
  "group m k = map_of (m_caps m) k"

text \<open>The matcher state at position \<open>i\<close> of the input \<open>s\<close>.\<close>

definition stateAt :: "string \<Rightarrow> nat \<Rightarrow> mstate" where
  "stateAt s i = (i, (if i = 0 then None else Some (s ! (i - 1))), drop i s, [])"

definition searchFrom :: "regex \<Rightarrow> string \<Rightarrow> nat \<Rightarrow> rmatch option" where
  "searchFrom r s i = search r i (st_prev (stateAt s i)) (drop i s)"

text \<open>
  All the matches of a regular expression with the \<open>g\<close> flag, from \<open>lastIndex = i\<close> on:
  the next search starts where the last match ended, one further after an empty match
  (as \<open>String.prototype.replace\<close> does; the patterns that the source runs in a
  \<open>while (regex.exec(..))\<close> loop never match the empty string).
\<close>

fun execAll :: "regex \<Rightarrow> string \<Rightarrow> nat \<Rightarrow> nat \<Rightarrow> rmatch list" where
  "execAll r s 0 i = []"
| "execAll r s (Suc fuel) i =
     (if length s < i then []
      else case searchFrom r s i of None \<Rightarrow> []
           | Some m \<Rightarrow> m # execAll r s fuel (if m_end m = m_start m then Suc (m_end m) else m_end m))"

definition matchAll :: "regex \<Rightarrow> string \<Rightarrow> rmatch list" where
  "matchAll r s = execAll r s (Suc (length s)) 0"

primrec ngroups :: "regex \<Rightarrow> nat" where
  "ngroups (Lit c) = 0"
| "ngroups (LitI c) = 0"
| "ngroups (Cls cs) = 0"
| "ngroups (NCls cs) = 0"
| "ngroups Bol = 0"
| "ngroups Eol = 0"
| "ngroups BolM = 0"
| "ngroups WordB = 0"
| "ngroups (Seq a b) = ngroups a + ngroups b"
| "ngroups (Alt a b) = ngroups a + ngroups b"
| "ngroups (Rep m n r) = ngroups r"
| "ngroups (Grp k r) = Suc (ngroups r)"

definition digitValue :: "char \<Rightarrow> nat option" where
  "digitValue c = map_of (zip digits [0 ..< 10]) c"

definition groupText :: "rmatch \<Rightarrow> nat \<Rightarrow> string" where
  "groupText m k = (case group m k of None \<Rightarrow> [] | Some t \<Rightarrow> t)"

text \<open>
  The replacement text of \<open>replace\<close> for one match (GetSubstitution): \<open>$$\<close> is a dollar
  sign, \<open>$&\<close> the matched text, \<open>$`\<close> and \<open>$'\<close> the input before and after the match,
  \<open>$n\<close> and \<open>$nn\<close> a capture group when the pattern has that many groups; any other
  dollar sign stands for itself. \<open>ng\<close> is the number of groups of the pattern.
\<close>

fun expandTemplate :: "string \<Rightarrow> string \<Rightarrow> rmatch \<Rightarrow> nat \<Rightarrow> string" where
  "expandTemplate [] s m ng = []"
| "expandTemplate [c] s m ng = [c]"
| "expandTemplate (c # d # t) s m ng =
     (if c \<noteq> CHR ''$'' then c # expandTemplate (d # t) s m ng
      else if d = CHR ''$'' then CHR ''$'' # expandTemplate t s m ng
      else if d = CHR ''&'' then take (m_end m - m_start m) (drop (m_start m) s) @ expandTemplate t s m ng
      else if d = CHR 0x60 then take (m_start m) s @ expandTemplate t s m ng
      else if d = CHR 0x27 then drop (m_end m) s @ expandTemplate t s m ng
      else case digitValue d of
             None \<Rightarrow> c # expandTemplate (d # t) s m ng
           | Some d1 \<Rightarrow>
               (case (case t of [] \<Rightarrow> None | e # _ \<Rightarrow> digitValue e) of
                  Some d2 \<Rightarrow>
                    if 1 \<le> 10 * d1 + d2 \<and> 10 * d1 + d2 \<le> ng
                    then groupText m (10 * d1 + d2) @ expandTemplate (tl t) s m ng
                    else if 1 \<le> d1 \<and> d1 \<le> ng then groupText m d1 @ expandTemplate t s m ng
                    else c # expandTemplate (d # t) s m ng
                | None \<Rightarrow>
                    if 1 \<le> d1 \<and> d1 \<le> ng then groupText m d1 @ expandTemplate t s m ng
                    else c # expandTemplate (d # t) s m ng))"

text \<open>\<open>s.replace(regex, template)\<close> for a regular expression with the \<open>g\<close> flag.\<close>

fun spliceMatches :: "string \<Rightarrow> string \<Rightarrow> nat \<Rightarrow> nat \<Rightarrow> rmatch list \<Rightarrow> string" where
  "spliceMatches s template ng i [] = drop i s"
| "spliceMatches s template ng i (m # ms') =
     take (m_start m - i) (drop i s) @ expandTemplate template s m ng
       @ spliceMatches s template ng (m_end m) ms'"

definition replaceAll :: "regex \<Rightarrow> string \<Rightarrow> string \<Rightarrow> string" where
  "replaceAll r template s = spliceMatches s template (ngroups r) 0 (matchAll r s)"

text \<open>Shorthands for the transcription.\<close>

fun lits :: "string \<Rightarrow> regex" where
  "lits [] = Rep 0 (Some 0) Bol"
| "lits [c] = Lit c"
| "lits (c # cs) = Seq (Lit c) (lits cs)"

fun lits_i :: "string \<Rightarrow> regex" where
  "lits_i [] = Rep 0 (Some 0) Bol"
| "lits_i [c] = LitI c"
| "lits_i (c # cs) = Seq (LitI c) (lits_i cs)"

fun seqs :: "regex list \<Rightarrow> regex" where
  "seqs [] = Rep 0 (Some 0) Bol"
| "seqs [r] = r"
| "seqs (r # rs) = Seq r (seqs rs)"

definition star :: "regex \<Rightarrow> regex" where
  "star r = Rep 0 None r"

definition plus :: "regex \<Rightarrow> regex" where
  "plus r = Rep 1 None r"

definition opt :: "regex \<Rightarrow> regex" where
  "opt r = Rep 0 (Some 1) r"

definition ws :: regex where
  "ws = Cls whiteSpace"

definition dot :: regex where
  "dot = NCls lineTerminators"

section \<open>Fragments\<close>

datatype fragType = T_text | T_alt | T_title | T_placeholder | T_meta

record ExtractedText =
  ext_id :: string
  originalText :: string
  translatedText :: "string option"
  path :: string
  context_of :: string
  ftype :: fragType

text \<open>A fresh fragment: the source always sets \<open>id\<close> and \<open>path\<close> to the same string.\<close>

definition mkFragment :: "string \<Rightarrow> string \<Rightarrow> string \<Rightarrow> fragType \<Rightarrow> ExtractedText" where
  "mkFragment p text ctx ty =
     \<lparr>ext_id = p, originalText = text, translatedText = None, path = p, context_of = ctx, ftype = ty\<rparr>"

section \<open>JSON values\<close>

text \<open>
  The value \<open>JSON.parse\<close> returns. A number is kept as the text \<open>Number.prototype.toString\<close>
  prints for it (so zero is \<open>''0''\<close>); an object is the list of its own properties in the
  order of \<open>Object.keys\<close>. \<open>JSON.parse\<close> and \<open>JSON.stringify\<close> themselves are built into the
  language and are parameters of the functions that call them: \<open>JSON.parse\<close> is a function
  \<open>string \<Rightarrow> json option\<close> (\<open>None\<close>: it throws a SyntaxError), \<open>JSON.stringify(v, null, 2)\<close> a
  function \<open>json \<Rightarrow> string\<close>.
\<close>

datatype json =
    JNull
  | JBool bool
  | JNum string
  | JStr string
  | JArr "json list"
  | JObj "(string \<times> json) list"

text \<open>Decimal digits of an array index, as a template literal prints it.\<close>

definition digitChar :: "nat \<Rightarrow> char" where
  "digitChar d = digits ! d"

function showNat :: "nat \<Rightarrow> string" where
  "showNat n = (if n < 10 then [digitChar n] else showNat (n div 10) @ [digitChar (n mod 10)])"
  by pat_completeness auto
termination
  by (relation "measure id") auto

declare showNat.simps [simp del]

text \<open>The map \<open>new Map(translations.map(t => [t.path, t.translatedText || t.originalText]))\<close>:
  an empty or missing translation gives the original text, a later fragment with the same
  path replaces an earlier one.\<close>

definition translationOrOriginal :: "ExtractedText \<Rightarrow> string" where
  "translationOrOriginal t =
     (case translatedText t of None \<Rightarrow> originalText t
      | Some tr \<Rightarrow> if tr = [] then originalText t else tr)"

definition pathTranslationMap :: "ExtractedText list \<Rightarrow> (string \<rightharpoonup> string)" where
  "pathTranslationMap translations = map_of (rev (map (\<lambda>t. (path t, translationOrOriginal t)) translations))"

section \<open>JavaScript values\<close>

text \<open>
  The source handles the parsed document as an untyped JavaScript value. The helpers below
  give the part of the language it relies on. A value that may be \<open>undefined\<close> is a
  \<^typ>\<open>json option\<close>; an operation that may throw returns \<open>Inl\<close> of the exception.
  Objects are assumed to list each key once, as \<open>JSON.parse\<close> produces them.
\<close>

datatype exn = SyntaxError | TypeError

definition bindE :: "exn + 'a \<Rightarrow> ('a \<Rightarrow> exn + 'b) \<Rightarrow> exn + 'b" where
  "bindE m f = (case m of Inl e \<Rightarrow> Inl e | Inr x \<Rightarrow> f x)"

text \<open>Truthiness: \<open>null\<close>, \<open>false\<close>, zero and the empty string are falsy.\<close>

fun truthy :: "json \<Rightarrow> bool" where
  "truthy JNull = False"
| "truthy (JBool b) = b"
| "truthy (JNum n) = (n \<noteq> ''0'')"
| "truthy (JStr s) = (s \<noteq> [])"
| "truthy (JArr xs) = True"
| "truthy (JObj kvs) = True"

definition truthyU :: "json option \<Rightarrow> bool" where
  "truthyU v = (case v of None \<Rightarrow> False | Some x \<Rightarrow> truthy x)"

text \<open>
  Reading a property \<open>v.k\<close>: a TypeError on \<open>null\<close> and \<open>undefined\<close>, the value of the key
  on an object, \<open>undefined\<close> otherwise (none of the names the source reads is a built-in
  property of an array, a string, a number or a boolean).
\<close>

fun getProp :: "json \<Rightarrow> string \<Rightarrow> exn + json option" where
  "getProp JNull k = Inl TypeError"
| "getProp (JObj kvs) k = Inr (map_of kvs k)"
| "getProp v k = Inr None"

definition getPropU :: "json option \<Rightarrow> string \<Rightarrow> exn + json option" where
  "getPropU v k = (case v of None \<Rightarrow> Inl TypeError | Some x \<Rightarrow> getProp x k)"

text \<open>Assigning to a key of an object: the value of an existing key is replaced in
  place, a new key is added at the end.\<close>

fun assign :: "(string \<times> json) list \<Rightarrow> string \<Rightarrow> json \<Rightarrow> (string \<times> json) list" where
  "assign [] k v = [(k, v)]"
| "assign ((k', v') # kvs) k v = (if k' = k then (k, v) # kvs else (k', v') # assign kvs k v)"

text \<open>
  The assignment \<open>o[k] = v\<close> for a key \<open>k\<close> that is not an array index, in strict mode
  (the source is a module of classes): a TypeError on \<open>null\<close>, \<open>undefined\<close> and on a
  primitive value; on an array it adds a property that \<open>JSON.stringify\<close> does not print,
  so the array is returned as it is.
\<close>

fun setProp :: "json option \<Rightarrow> string \<Rightarrow> json \<Rightarrow> exn + json" where
  "setProp (Some (JObj kvs)) k v = Inr (JObj (assign kvs k v))"
| "setProp (Some (JArr xs)) k v = Inr (JArr xs)"
| "setProp w k v = Inl TypeError"

text \<open>The entries \<open>Object.keys\<close> enumerates: the keys of an object, the indices of an
  array, the indices of the code units of a string, nothing for other values.\<close>

fun indexed :: "nat \<Rightarrow> 'a list \<Rightarrow> (string \<times> 'a) list" where
  "indexed i [] = []"
| "indexed i (x # xs) = (showNat i, x) # indexed (Suc i) xs"

fun ownEntries :: "json \<Rightarrow> (string \<times> json) list" where
  "ownEntries (JObj kvs) = kvs"
| "ownEntries (JArr xs) = indexed 0 xs"
| "ownEntries (JStr s) = indexed 0 (map (\<lambda>c. JStr [c]) s)"
| "ownEntries v = []"

definition joinWith :: "string \<Rightarrow> string list \<Rightarrow> string" where
  "joinWith sep xs = (case xs of [] \<Rightarrow> [] | y # ys \<Rightarrow> y @ concat (map (\<lambda>z. sep @ z) ys))"

fun sequenceE :: "(exn + 'a) list \<Rightarrow> exn + 'a list" where
  "sequenceE [] = Inr []"
| "sequenceE (m # ms') = bindE m (\<lambda>x. bindE (sequenceE ms') (\<lambda>xs. Inr (x # xs)))"

text \<open>
  The string a template literal prints for a value (ToString). An array prints its
  elements joined by commas, \<open>null\<close> elements as nothing; an object prints
  \<open>[object Object]\<close>, unless it has a key \<open>toString\<close>, whose value is not callable, and the
  conversion throws a TypeError.
\<close>

fun ToString :: "json \<Rightarrow> exn + string" where
  "ToString JNull = Inr ''null''"
| "ToString (JBool b) = Inr (if b then ''true'' else ''false'')"
| "ToString (JNum n) = Inr n"
| "ToString (JStr s) = Inr s"
| "ToString (JArr xs) =
     bindE (sequenceE (map (\<lambda>x. if x = JNull then Inr [] else ToString x) xs))
       (\<lambda>ss. Inr (joinWith '','' ss))"
| "ToString (JObj kvs) =
     (if ''toString'' \<in> set (map fst kvs) then Inl TypeError else Inr ''[object Object]'')"

definition ToStringU :: "json option \<Rightarrow> exn + string" where
  "ToStringU v = (case v of None \<Rightarrow> Inr ''undefined'' | Some x \<Rightarrow> ToString x)"

text \<open>
  What a function of the source pushes onto \<open>extractedTexts\<close>, and how it ends:
  normally, by an exception (the fragments pushed before it stay in the list), or with a
  value that is not a string where the declared type of the document says
  \<open>string\<close>; the last case is outside this model.
\<close>

datatype completion = Normal | Abrupt | Untyped

type_synonym emit = "ExtractedText list \<times> completion"

definition andThen :: "emit \<Rightarrow> emit \<Rightarrow> emit" where
  "andThen a b = (if snd a = Normal then (fst a @ fst b, snd b) else a)"

text \<open>Pushing one fragment whose fields may throw while the object literal is built.\<close>

definition push :: "(exn + ExtractedText) \<Rightarrow> emit" where
  "push m = (case m of Inl e \<Rightarrow> ([], Abrupt) | Inr f \<Rightarrow> ([f], Normal))"

definition orAbrupt :: "(exn + 'a) \<Rightarrow> ('a \<Rightarrow> emit) \<Rightarrow> emit" where
  "orAbrupt m f = (case m of Inl e \<Rightarrow> ([], Abrupt) | Inr x \<Rightarrow> f x)"

section \<open>The generic JSON parser (jsonParser.ts)\<close>

definition JsonParser_validate :: "(string \<Rightarrow> json option) \<Rightarrow> string \<Rightarrow> bool" where
  "JsonParser_validate JSON_parse content = (JSON_parse content \<noteq> None)"

text \<open>\<open>/^https?:\/\//i\<close>\<close>

definition urlPattern :: regex where
  "urlPattern = seqs [Bol, lits_i ''http'', opt (LitI CHR ''s''), lits_i ''://'']"

text \<open>\<open>/^[^\s@]+@[^\s@]+\.[^\s@]+$/\<close>\<close>

definition emailPattern :: regex where
  "emailPattern =
     seqs [Bol, plus (NCls (whiteSpace @ ''@'')), Lit CHR ''@'', plus (NCls (whiteSpace @ ''@'')),
           Lit CHR ''.'', plus (NCls (whiteSpace @ ''@'')), Eol]"

text \<open>\<open>/^[a-f0-9-]{8,}$/i\<close>\<close>

definition idPattern :: regex where
  "idPattern = seqs [Bol, Rep 8 None (Cls (''abcdef'' @ ''ABCDEF'' @ digits @ ''-'')), Eol]"

definition JsonParser_isTextualContent :: "string \<Rightarrow> bool" where
  "JsonParser_isTextualContent v =
     (length (trim v) > 2 \<and> \<not> rx_test urlPattern v \<and> \<not> rx_test emailPattern v \<and> \<not> rx_test idPattern v)"

text \<open>Both branches of \<open>getContextForKey\<close> return the same template.\<close>

definition getContextForKey :: "string \<Rightarrow> string \<Rightarrow> string" where
  "getContextForKey key parentContext = parentContext @ '' '' @ key"

definition itemPath :: "string \<Rightarrow> nat \<Rightarrow> string" where
  "itemPath p index = p @ ''['' @ showNat index @ '']''"

definition keyPath :: "string \<Rightarrow> string \<Rightarrow> string" where
  "keyPath p key = (if p \<noteq> [] then p @ ''.'' @ key else key)"

text \<open>\<open>extractFromObject\<close>; the two \<open>forEach\<close> loops are \<open>extractItems\<close> (over an array, from
  index \<open>i\<close>) and \<open>extractKeys\<close> (over the keys of an object). The result is what the call
  pushes onto \<open>extractedTexts\<close>.\<close>

fun extractFromObject :: "json \<Rightarrow> string \<Rightarrow> string \<Rightarrow> ExtractedText list"
  and extractItems :: "json list \<Rightarrow> nat \<Rightarrow> string \<Rightarrow> string \<Rightarrow> ExtractedText list"
  and extractKeys :: "(string \<times> json) list \<Rightarrow> string \<Rightarrow> string \<Rightarrow> ExtractedText list" where
  "extractFromObject JNull p ctx = []"
| "extractFromObject (JStr s) p ctx =
     (if JsonParser_isTextualContent s
      then [\<lparr>ext_id = p, originalText = s, translatedText = None, path = p,
             context_of = ctx, ftype = T_text\<rparr>]
      else [])"
| "extractFromObject (JArr xs) p ctx = extractItems xs 0 p ctx"
| "extractFromObject (JObj kvs) p ctx = extractKeys kvs p ctx"
| "extractFromObject (JBool b) p ctx = []"
| "extractFromObject (JNum n) p ctx = []"
| "extractItems [] i p ctx = []"
| "extractItems (x # xs) i p ctx =
     extractFromObject x (itemPath p i) (ctx @ '' array item'') @ extractItems xs (Suc i) p ctx"
| "extractKeys [] p ctx = []"
| "extractKeys ((k, v) # kvs) p ctx =
     extractFromObject v (keyPath p k) (getContextForKey k ctx) @ extractKeys kvs p ctx"

definition JsonParser_parse :: "(string \<Rightarrow> json option) \<Rightarrow> string \<Rightarrow> ExtractedText list" where
  "JsonParser_parse JSON_parse content =
     (case JSON_parse content of None \<Rightarrow> []
      | Some jsonData \<Rightarrow> extractFromObject jsonData [] ''JSON'')"

text \<open>\<open>reconstructObject\<close> updates the tree in place; the model returns the updated tree.
  \<open>reconstructItems\<close> and \<open>reconstructKeys\<close> are its two \<open>forEach\<close> loops.\<close>

fun reconstructObject :: "json \<Rightarrow> string \<Rightarrow> (string \<rightharpoonup> string) \<Rightarrow> json"
  and reconstructItems :: "json list \<Rightarrow> nat \<Rightarrow> string \<Rightarrow> (string \<rightharpoonup> string) \<Rightarrow> json list"
  and reconstructKeys :: "(string \<times> json) list \<Rightarrow> string \<Rightarrow> (string \<rightharpoonup> string) \<Rightarrow> (string \<times> json) list" where
  "reconstructObject JNull p tm = JNull"
| "reconstructObject (JStr s) p tm = JStr s"
| "reconstructObject (JArr xs) p tm = JArr (reconstructItems xs 0 p tm)"
| "reconstructObject (JObj kvs) p tm = JObj (reconstructKeys kvs p tm)"
| "reconstructObject (JBool b) p tm = JBool b"
| "reconstructObject (JNum n) p tm = JNum n"
| "reconstructItems [] i p tm = []"
| "reconstructItems (x # xs) i p tm =
     (case tm (itemPath p i) of Some t \<Rightarrow> JStr t
      | None \<Rightarrow> reconstructObject x (itemPath p i) tm) # reconstructItems xs (Suc i) p tm"
| "reconstructKeys [] p tm = []"
| "reconstructKeys ((k, v) # kvs) p tm =
     (k, case tm (keyPath p k) of Some t \<Rightarrow> JStr t
         | None \<Rightarrow> reconstructObject v (keyPath p k) tm) # reconstructKeys kvs p tm"

definition JsonParser_reconstruct ::
  "(string \<Rightarrow> json option) \<Rightarrow> (json \<Rightarrow> string) \<Rightarrow> string \<Rightarrow> ExtractedText list \<Rightarrow> string" where
  "JsonParser_reconstruct JSON_parse JSON_stringify originalContent translations =
     (case JSON_parse originalContent of None \<Rightarrow> originalContent
      | Some jsonData \<Rightarrow>
          JSON_stringify (reconstructObject jsonData [] (pathTranslationMap translations)))"

section \<open>The Editor.js parser (editorJsParser.ts)\<close>

text \<open>\<open>validate\<close>: \<open>parsed && Array.isArray(parsed.blocks)\<close>, as the condition of an
  \<open>if\<close> reads it.\<close>

definition isArray :: "json option \<Rightarrow> bool" where
  "isArray v = (case v of Some (JArr xs) \<Rightarrow> True | _ \<Rightarrow> False)"

definition EditorJSParser_validate :: "(string \<Rightarrow> json option) \<Rightarrow> string \<Rightarrow> bool" where
  "EditorJSParser_validate JSON_parse content =
     (case JSON_parse content of None \<Rightarrow> False
      | Some parsed \<Rightarrow>
          truthy parsed \<and> (case getProp parsed ''blocks'' of Inl e \<Rightarrow> False | Inr b \<Rightarrow> isArray b))"

text \<open>\<open>/<[^>]*>/g\<close>\<close>

definition tagRegex :: regex where
  "tagRegex = seqs [Lit CHR ''<'', star (NCls ''>''), Lit CHR ''>'']"

definition stripHtml :: "string \<Rightarrow> string" where
  "stripHtml text = trim (replaceAll tagRegex [] text)"

text \<open>\<open>stripHtml\<close> called on a value of the document: \<open>text.replace\<close> is a function on
  strings only.\<close>

definition stripHtmlV :: "json option \<Rightarrow> exn + string" where
  "stripHtmlV v = (case v of Some (JStr s) \<Rightarrow> Inr (stripHtml s) | _ \<Rightarrow> Inl TypeError)"

definition EditorJSParser_isTextualContent :: "string \<Rightarrow> string \<Rightarrow> bool" where
  "EditorJSParser_isTextualContent key v =
     (toLowerCase key \<notin> set [''url'', ''id'', ''file'', ''src'', ''href'', ''link'', ''embed'']
      \<and> \<not> rx_test urlPattern v \<and> length v > 2)"

definition blockPathOf :: "nat \<Rightarrow> string" where
  "blockPathOf blockIndex = ''blocks['' @ showNat blockIndex @ '']''"

text \<open>\<open>if (data.key) push {.. originalText: this.stripHtml(data.key) ..}\<close>\<close>

definition strippedField :: "json option \<Rightarrow> string \<Rightarrow> string \<Rightarrow> string \<Rightarrow> emit" where
  "strippedField v blockPath key ctx =
     (if truthyU v
      then push (bindE (stripHtmlV v)
                   (\<lambda>s. Inr (mkFragment (blockPath @ ''.data.'' @ key) s ctx T_text)))
      else ([], Normal))"

text \<open>\<open>if (data.key) push {.. originalText: data.key ..}\<close>: the value is stored as it
  is, so it has to be a string.\<close>

definition rawField :: "json option \<Rightarrow> string \<Rightarrow> string \<Rightarrow> string \<Rightarrow> emit" where
  "rawField v blockPath key ctx =
     (if truthyU v
      then (case v of Some (JStr s) \<Rightarrow> ([mkFragment (blockPath @ ''.data.'' @ key) s ctx T_text], Normal)
            | _ \<Rightarrow> ([], Untyped))
      else ([], Normal))"

text \<open>The loop over \<open>block.data.items\<close> of a list block, from index \<open>itemIndex\<close>; \<open>style\<close>
  is \<open>block.data.style\<close>.\<close>

definition listContext :: "json option \<Rightarrow> exn + string" where
  "listContext style =
     bindE (if truthyU style then ToStringU style else Inr ''unordered'') (\<lambda>s. Inr (s @ '' list item''))"

fun listItems :: "json list \<Rightarrow> nat \<Rightarrow> string \<Rightarrow> json option \<Rightarrow> emit" where
  "listItems [] itemIndex blockPath style = ([], Normal)"
| "listItems (item # items) itemIndex blockPath style =
     andThen
       (push (bindE (stripHtmlV (Some item)) (\<lambda>s.
              bindE (listContext style) (\<lambda>ctx.
              Inr (mkFragment (blockPath @ ''.data.items['' @ showNat itemIndex @ '']'') s ctx T_text)))))
       (listItems items (Suc itemIndex) blockPath style)"

text \<open>The loops over the rows and the cells of a table block.\<close>

definition cellContext :: "nat \<Rightarrow> nat \<Rightarrow> string" where
  "cellContext rowIndex cellIndex =
     ''table cell ('' @ showNat (rowIndex + 1) @ '', '' @ showNat (cellIndex + 1) @ '')''"

fun tableCells :: "json list \<Rightarrow> nat \<Rightarrow> nat \<Rightarrow> string \<Rightarrow> emit" where
  "tableCells [] rowIndex cellIndex blockPath = ([], Normal)"
| "tableCells (cell # cells) rowIndex cellIndex blockPath =
     andThen
       (case cell of
          JStr s \<Rightarrow>
            if trim s \<noteq> []
            then ([mkFragment (blockPath @ ''.data.content['' @ showNat rowIndex @ ''][''
                                 @ showNat cellIndex @ '']'')
                     (stripHtml s) (cellContext rowIndex cellIndex) T_text], Normal)
            else ([], Normal)
        | _ \<Rightarrow> ([], Abrupt))
       (tableCells cells rowIndex (Suc cellIndex) blockPath)"

fun tableRows :: "json list \<Rightarrow> nat \<Rightarrow> string \<Rightarrow> emit" where
  "tableRows [] rowIndex blockPath = ([], Normal)"
| "tableRows (row # rows) rowIndex blockPath =
     andThen
       (case row of JArr cells \<Rightarrow> tableCells cells rowIndex 0 blockPath | _ \<Rightarrow> ([], Abrupt))
       (tableRows rows (Suc rowIndex) blockPath)"

text \<open>The loop over the items of a checklist block.\<close>

fun checklistItems :: "json list \<Rightarrow> nat \<Rightarrow> string \<Rightarrow> emit" where
  "checklistItems [] itemIndex blockPath = ([], Normal)"
| "checklistItems (item # items) itemIndex blockPath =
     andThen
       (orAbrupt (getProp item ''text'') (\<lambda>t.
          if truthyU t
          then push (bindE (stripHtmlV t) (\<lambda>s.
                 Inr (mkFragment (blockPath @ ''.data.items['' @ showNat itemIndex @ ''].text'') s
                        ''checklist item'' T_text)))
          else ([], Normal)))
       (checklistItems items (Suc itemIndex) blockPath)"

text \<open>\<open>extractGenericTextFields\<close>: the inner loop over an array value, and the loop over
  the keys of \<open>data\<close>. \<open>blockType\<close> is \<open>block.type\<close>, whatever it is.\<close>

fun genericItems :: "json list \<Rightarrow> nat \<Rightarrow> string \<Rightarrow> json option \<Rightarrow> string \<Rightarrow> emit" where
  "genericItems [] index currentPath blockType key = ([], Normal)"
| "genericItems (item # items) index currentPath blockType key =
     andThen
       (case item of
          JStr s \<Rightarrow>
            if trim s \<noteq> []
            then push (bindE (ToStringU blockType) (\<lambda>bt.
                   Inr (mkFragment (currentPath @ ''['' @ showNat index @ '']'') (stripHtml s)
                          (bt @ '' '' @ key @ '' item'') T_text)))
            else ([], Normal)
        | _ \<Rightarrow> ([], Normal))
       (genericItems items (Suc index) currentPath blockType key)"

fun genericKeys :: "(string \<times> json) list \<Rightarrow> string \<Rightarrow> json option \<Rightarrow> emit" where
  "genericKeys [] basePath blockType = ([], Normal)"
| "genericKeys ((key, v) # kvs) basePath blockType =
     andThen
       (case v of
          JStr s \<Rightarrow>
            if trim s \<noteq> [] \<and> EditorJSParser_isTextualContent key s
            then push (bindE (ToStringU blockType) (\<lambda>bt.
                   Inr (mkFragment (basePath @ ''.data.'' @ key) (stripHtml s)
                          (bt @ '' '' @ key) T_text)))
            else ([], Normal)
        | JArr items \<Rightarrow> genericItems items 0 (basePath @ ''.data.'' @ key) blockType key
        | _ \<Rightarrow> ([], Normal))
       (genericKeys kvs basePath blockType)"

definition isObjectValue :: "json option \<Rightarrow> bool" where
  "isObjectValue v = (case v of Some (JObj kvs) \<Rightarrow> True | Some (JArr xs) \<Rightarrow> True | _ \<Rightarrow> False)"

definition extractGenericTextFields :: "json option \<Rightarrow> string \<Rightarrow> json option \<Rightarrow> emit" where
  "extractGenericTextFields data basePath blockType =
     (case data of
        Some d \<Rightarrow> if isObjectValue data then genericKeys (ownEntries d) basePath blockType
                   else ([], Normal)
      | None \<Rightarrow> ([], Normal))"

text \<open>A truthy value has to be an array for \<open>forEach\<close> and \<open>map\<close> to be functions.\<close>

definition forArray :: "json option \<Rightarrow> (json list \<Rightarrow> emit) \<Rightarrow> emit" where
  "forArray v f =
     (if truthyU v then (case v of Some (JArr xs) \<Rightarrow> f xs | _ \<Rightarrow> ([], Abrupt)) else ([], Normal))"

definition extractFromBlock :: "json \<Rightarrow> nat \<Rightarrow> emit" where
  "extractFromBlock block blockIndex =
     (let blockPath = blockPathOf blockIndex in
      orAbrupt (getProp block ''type'') (\<lambda>ty.
      orAbrupt (getProp block ''data'') (\<lambda>data.
        if ty = Some (JStr ''paragraph'') \<or> ty = Some (JStr ''header'') then
          orAbrupt (getPropU data ''text'') (\<lambda>t.
            strippedField t blockPath ''text''
              ((if ty = Some (JStr ''paragraph'') then ''paragraph'' else ''header'') @ '' block''))
        else if ty = Some (JStr ''list'') then
          orAbrupt (getPropU data ''items'') (\<lambda>items.
            forArray items (\<lambda>xs.
              orAbrupt (getPropU data ''style'') (\<lambda>style. listItems xs 0 blockPath style)))
        else if ty = Some (JStr ''quote'') then
          orAbrupt (getPropU data ''text'') (\<lambda>t.
            andThen (strippedField t blockPath ''text'' ''quote text'')
              (orAbrupt (getPropU data ''caption'') (\<lambda>c.
                 strippedField c blockPath ''caption'' ''quote caption'')))
        else if ty = Some (JStr ''image'') \<or> ty = Some (JStr ''embed'') then
          orAbrupt (getPropU data ''caption'') (\<lambda>c.
            rawField c blockPath ''caption''
              ((if ty = Some (JStr ''image'') then ''image'' else ''embed'') @ '' caption''))
        else if ty = Some (JStr ''table'') then
          orAbrupt (getPropU data ''content'') (\<lambda>content.
            forArray content (\<lambda>rows. tableRows rows 0 blockPath))
        else if ty = Some (JStr ''checklist'') then
          orAbrupt (getPropU data ''items'') (\<lambda>items.
            forArray items (\<lambda>xs. checklistItems xs 0 blockPath))
        else if ty = Some (JStr ''warning'') \<or> ty = Some (JStr ''alert'') then
          orAbrupt (getPropU data ''title'') (\<lambda>t.
            andThen
              (rawField t blockPath ''title''
                 ((if ty = Some (JStr ''warning'') then ''warning'' else ''alert'') @ '' title''))
              (orAbrupt (getPropU data ''message'') (\<lambda>msg.
                 rawField msg blockPath ''message''
                   ((if ty = Some (JStr ''warning'') then ''warning'' else ''alert'') @ '' message''))))
        else extractGenericTextFields data blockPath ty)))"

text \<open>The loop \<open>editorData.blocks.forEach\<close> of \<open>parse\<close>.\<close>

fun extractBlocks :: "json list \<Rightarrow> nat \<Rightarrow> emit" where
  "extractBlocks [] blockIndex = ([], Normal)"
| "extractBlocks (block # blocks) blockIndex =
     andThen (extractFromBlock block blockIndex) (extractBlocks blocks (Suc blockIndex))"

text \<open>\<open>parse\<close> with how it ended; the \<open>catch\<close> keeps what was pushed before an exception.\<close>

definition EditorJSParser_run :: "(string \<Rightarrow> json option) \<Rightarrow> string \<Rightarrow> emit" where
  "EditorJSParser_run JSON_parse content =
     (case JSON_parse content of None \<Rightarrow> ([], Abrupt)
      | Some editorData \<Rightarrow>
          orAbrupt (getProp editorData ''blocks'') (\<lambda>blocks.
            case blocks of Some (JArr bs) \<Rightarrow> extractBlocks bs 0 | _ \<Rightarrow> ([], Abrupt)))"

text \<open>What \<open>parse\<close> returns; \<open>None\<close> where the document is outside the model.\<close>

definition EditorJSParser_parse :: "(string \<Rightarrow> json option) \<Rightarrow> string \<Rightarrow> ExtractedText list option" where
  "EditorJSParser_parse JSON_parse content =
     (let r = EditorJSParser_run JSON_parse content
      in if snd r = Untyped then None else Some (fst r))"

text \<open>\<open>updateTextPath(data, key, path, translationMap)\<close>; the result is \<open>data\<close> after the
  call.\<close>

definition updateTextPath ::
  "json option \<Rightarrow> string \<Rightarrow> string \<Rightarrow> (string \<rightharpoonup> string) \<Rightarrow> exn + json option" where
  "updateTextPath data key p tm =
     (case tm p of None \<Rightarrow> Inr data
      | Some t \<Rightarrow> bindE (setProp data key (JStr t)) (\<lambda>d. Inr (Some d)))"

text \<open>\<open>block.data\<close> of the object \<open>block\<close> after \<open>data\<close> was updated in place.\<close>

definition withData :: "(string \<times> json) list \<Rightarrow> json option \<Rightarrow> json" where
  "withData kvs data = (case data of None \<Rightarrow> JObj kvs | Some d \<Rightarrow> JObj (assign kvs ''data'' d))"

text \<open>\<open>translationMap.get(path) || item\<close>\<close>

definition getOr :: "(string \<rightharpoonup> string) \<Rightarrow> string \<Rightarrow> json \<Rightarrow> json" where
  "getOr tm p item = (case tm p of None \<Rightarrow> item | Some t \<Rightarrow> if t = [] then item else JStr t)"

text \<open>\<open>translationMap.has(path) ? translationMap.get(path) : item\<close>\<close>

definition getIfHas :: "(string \<rightharpoonup> string) \<Rightarrow> string \<Rightarrow> json \<Rightarrow> json" where
  "getIfHas tm p item = (case tm p of None \<Rightarrow> item | Some t \<Rightarrow> JStr t)"

fun reconstructListItems :: "json list \<Rightarrow> nat \<Rightarrow> string \<Rightarrow> (string \<rightharpoonup> string) \<Rightarrow> json list" where
  "reconstructListItems [] itemIndex blockPath tm = []"
| "reconstructListItems (item # items) itemIndex blockPath tm =
     getOr tm (blockPath @ ''.data.items['' @ showNat itemIndex @ '']'') item
       # reconstructListItems items (Suc itemIndex) blockPath tm"

fun reconstructCells :: "json list \<Rightarrow> nat \<Rightarrow> nat \<Rightarrow> string \<Rightarrow> (string \<rightharpoonup> string) \<Rightarrow> json list" where
  "reconstructCells [] rowIndex cellIndex blockPath tm = []"
| "reconstructCells (cell # cells) rowIndex cellIndex blockPath tm =
     getOr tm (blockPath @ ''.data.content['' @ showNat rowIndex @ ''][''
                 @ showNat cellIndex @ '']'') cell
       # reconstructCells cells rowIndex (Suc cellIndex) blockPath tm"

fun reconstructRows :: "json list \<Rightarrow> nat \<Rightarrow> string \<Rightarrow> (string \<rightharpoonup> string) \<Rightarrow> exn + json list" where
  "reconstructRows [] rowIndex blockPath tm = Inr []"
| "reconstructRows (row # rows) rowIndex blockPath tm =
     (case row of
        JArr cells \<Rightarrow>
          bindE (reconstructRows rows (Suc rowIndex) blockPath tm)
            (\<lambda>rs. Inr (JArr (reconstructCells cells rowIndex 0 blockPath tm) # rs))
      | _ \<Rightarrow> Inl TypeError)"

fun reconstructChecklist :: "json list \<Rightarrow> nat \<Rightarrow> string \<Rightarrow> (string \<rightharpoonup> string) \<Rightarrow> exn + json list" where
  "reconstructChecklist [] itemIndex blockPath tm = Inr []"
| "reconstructChecklist (item # items) itemIndex blockPath tm =
     bindE (case tm (blockPath @ ''.data.items['' @ showNat itemIndex @ ''].text'') of
              None \<Rightarrow> Inr item
            | Some t \<Rightarrow> setProp (Some item) ''text'' (JStr t))
       (\<lambda>item'. bindE (reconstructChecklist items (Suc itemIndex) blockPath tm)
          (\<lambda>items'. Inr (item' # items')))"

fun reconstructGenericItems :: "json list \<Rightarrow> nat \<Rightarrow> string \<Rightarrow> (string \<rightharpoonup> string) \<Rightarrow> json list" where
  "reconstructGenericItems [] index currentPath tm = []"
| "reconstructGenericItems (item # items) index currentPath tm =
     getIfHas tm (currentPath @ ''['' @ showNat index @ '']'') item
       # reconstructGenericItems items (Suc index) currentPath tm"

text \<open>The value of \<open>data[key]\<close> after the body of the loop of
  \<open>reconstructGenericTextFields\<close> has run for \<open>key\<close>.\<close>

definition reconstructGenericValue :: "string \<Rightarrow> json \<Rightarrow> string \<Rightarrow> (string \<rightharpoonup> string) \<Rightarrow> json" where
  "reconstructGenericValue key v basePath tm =
     (case v of
        JStr s \<Rightarrow> getIfHas tm (basePath @ ''.data.'' @ key) v
      | JArr items \<Rightarrow> JArr (reconstructGenericItems items 0 (basePath @ ''.data.'' @ key) tm)
      | _ \<Rightarrow> v)"

definition reconstructGenericTextFields :: "json option \<Rightarrow> string \<Rightarrow> (string \<rightharpoonup> string) \<Rightarrow> json option" where
  "reconstructGenericTextFields data basePath tm =
     (case data of
        Some (JObj kvs) \<Rightarrow>
          Some (JObj (map (\<lambda>(key, v). (key, reconstructGenericValue key v basePath tm)) kvs))
      | Some (JArr xs) \<Rightarrow>
          Some (JArr (map (\<lambda>(key, v). reconstructGenericValue key v basePath tm) (indexed 0 xs)))
      | _ \<Rightarrow> data)"

text \<open>The \<open>switch\<close> of \<open>reconstructBlock\<close>: \<open>block.data\<close> after it, for a block of type
  \<open>ty\<close> with the path \<open>blockPath\<close>.\<close>

definition reconstructData ::
  "json option \<Rightarrow> json option \<Rightarrow> string \<Rightarrow> (string \<rightharpoonup> string) \<Rightarrow> exn + json option" where
  "reconstructData ty data blockPath tm =
     (if ty = Some (JStr ''paragraph'') \<or> ty = Some (JStr ''header'') then
        updateTextPath data ''text'' (blockPath @ ''.data.text'') tm
      else if ty = Some (JStr ''list'') then
        bindE (getPropU data ''items'') (\<lambda>items.
          if truthyU items then
            (case items of
               Some (JArr xs) \<Rightarrow>
                 bindE (setProp data ''items'' (JArr (reconstructListItems xs 0 blockPath tm)))
                   (\<lambda>d. Inr (Some d))
             | _ \<Rightarrow> Inl TypeError)
          else Inr data)
      else if ty = Some (JStr ''quote'') then
        bindE (updateTextPath data ''text'' (blockPath @ ''.data.text'') tm) (\<lambda>d.
          updateTextPath d ''caption'' (blockPath @ ''.data.caption'') tm)
      else if ty = Some (JStr ''image'') \<or> ty = Some (JStr ''embed'') then
        updateTextPath data ''caption'' (blockPath @ ''.data.caption'') tm
      else if ty = Some (JStr ''table'') then
        bindE (getPropU data ''content'') (\<lambda>content.
          if truthyU content then
            (case content of
               Some (JArr rows) \<Rightarrow>
                 bindE (reconstructRows rows 0 blockPath tm) (\<lambda>rows'.
                 bindE (setProp data ''content'' (JArr rows')) (\<lambda>d. Inr (Some d)))
             | _ \<Rightarrow> Inl TypeError)
          else Inr data)
      else if ty = Some (JStr ''checklist'') then
        bindE (getPropU data ''items'') (\<lambda>items.
          if truthyU items then
            (case items of
               Some (JArr xs) \<Rightarrow>
                 bindE (reconstructChecklist xs 0 blockPath tm) (\<lambda>xs'.
                 bindE (setProp data ''items'' (JArr xs')) (\<lambda>d. Inr (Some d)))
             | _ \<Rightarrow> Inl TypeError)
          else Inr data)
      else if ty = Some (JStr ''warning'') \<or> ty = Some (JStr ''alert'') then
        bindE (updateTextPath data ''title'' (blockPath @ ''.data.title'') tm) (\<lambda>d.
          updateTextPath d ''message'' (blockPath @ ''.data.message'') tm)
      else Inr (reconstructGenericTextFields data blockPath tm))"

text \<open>\<open>reconstructBlock\<close>; the result is the block after the call. Only an object has a
  \<open>type\<close> that selects a case of the \<open>switch\<close> or a \<open>data\<close> to work on.\<close>

definition reconstructBlock :: "json \<Rightarrow> nat \<Rightarrow> (string \<rightharpoonup> string) \<Rightarrow> exn + json" where
  "reconstructBlock block blockIndex tm =
     bindE (getProp block ''type'') (\<lambda>ty.
       case block of
         JObj kvs \<Rightarrow>
           bindE (reconstructData ty (map_of kvs ''data'') (blockPathOf blockIndex) tm)
             (\<lambda>d. Inr (withData kvs d))
       | _ \<Rightarrow> Inr block)"

fun reconstructBlocks :: "json list \<Rightarrow> nat \<Rightarrow> (string \<rightharpoonup> string) \<Rightarrow> exn + json list" where
  "reconstructBlocks [] blockIndex tm = Inr []"
| "reconstructBlocks (block # blocks) blockIndex tm =
     bindE (reconstructBlock block blockIndex tm) (\<lambda>b.
     bindE (reconstructBlocks blocks (Suc blockIndex) tm) (\<lambda>bs. Inr (b # bs)))"

text \<open>The body of the \<open>try\<close> of \<open>reconstruct\<close> up to \<open>JSON.stringify\<close>: the document
  after the loop over \<open>editorData.blocks\<close>, which is a function on arrays only.\<close>

definition rebuildEditorJS :: "json \<Rightarrow> (string \<rightharpoonup> string) \<Rightarrow> exn + json" where
  "rebuildEditorJS editorData tm =
     (case editorData of
        JObj kvs \<Rightarrow>
          (case map_of kvs ''blocks'' of
             Some (JArr bs) \<Rightarrow>
               bindE (reconstructBlocks bs 0 tm) (\<lambda>bs'. Inr (JObj (assign kvs ''blocks'' (JArr bs'))))
           | _ \<Rightarrow> Inl TypeError)
      | _ \<Rightarrow> Inl TypeError)"

definition EditorJSParser_reconstruct ::
  "(string \<Rightarrow> json option) \<Rightarrow> (json \<Rightarrow> string) \<Rightarrow> string \<Rightarrow> ExtractedText list \<Rightarrow> string" where
  "EditorJSParser_reconstruct JSON_parse JSON_stringify originalContent translations =
     (case JSON_parse originalContent of None \<Rightarrow> originalContent
      | Some editorData \<Rightarrow>
          (case rebuildEditorJS editorData (pathTranslationMap translations) of
             Inl e \<Rightarrow> originalContent
           | Inr rebuilt \<Rightarrow> JSON_stringify rebuilt))"

section \<open>The GrapeJS parser (grapeJsParser.ts)\<close>

definition GrapeJSParser_validate :: "(string \<Rightarrow> json option) \<Rightarrow> string \<Rightarrow> bool" where
  "GrapeJSParser_validate JSON_parse content =
     (case JSON_parse content of None \<Rightarrow> False
      | Some parsed \<Rightarrow>
          truthy parsed \<and>
          (isArray (Some parsed) \<or>
           (case getProp parsed ''components'' of Inl e \<Rightarrow> False
            | Inr c \<Rightarrow> truthyU c \<and> isArray c)))"

text \<open>\<open>/^#[0-9a-f]{3,6}$/i\<close> and \<open>/^\d+(\.\d+)?(px|em|rem|%)?$/i\<close>\<close>

definition colorPattern :: regex where
  "colorPattern = seqs [Bol, Lit CHR ''#'', Rep 3 (Some 6) (Cls (digits @ ''abcdef'' @ ''ABCDEF'')), Eol]"

definition numberPattern :: regex where
  "numberPattern =
     seqs [Bol, plus (Cls digits), opt (Grp 1 (Seq (Lit CHR ''.'') (plus (Cls digits)))),
           opt (Grp 2 (Alt (lits_i ''px'') (Alt (lits_i ''em'') (Alt (lits_i ''rem'') (Lit CHR ''%''))))),
           Eol]"

definition GrapeJSParser_isTextualContent :: "string \<Rightarrow> string \<Rightarrow> bool" where
  "GrapeJSParser_isTextualContent key v =
     (toLowerCase key \<notin> set [''id'', ''class'', ''src'', ''href'', ''url'', ''link'', ''style'', ''width'', ''height'']
      \<and> \<not> rx_test urlPattern v \<and> \<not> rx_test colorPattern v \<and> \<not> rx_test numberPattern v
      \<and> length v > 1)"

definition getAttributeType :: "string \<Rightarrow> fragType" where
  "getAttributeType attributeName =
     (let n = toLowerCase attributeName in
      if n = ''alt'' then T_alt
      else if n = ''title'' then T_title
      else if n = ''placeholder'' then T_placeholder
      else if n = ''aria-label'' \<or> n = ''data-text'' then T_meta
      else T_text)"

definition getComponentContext :: "json \<Rightarrow> exn + string" where
  "getComponentContext component =
     bindE (getProp component ''type'') (\<lambda>ty.
       if truthyU ty then bindE (ToStringU ty) (\<lambda>s. Inr (s @ '' component''))
       else bindE (getProp component ''tagName'') (\<lambda>tag.
         if truthyU tag then bindE (ToStringU tag) (\<lambda>s. Inr (s @ '' element''))
         else Inr ''component''))"

text \<open>The first step of \<open>extractFromComponent\<close>: the text content.\<close>

definition extractContent :: "json \<Rightarrow> string \<Rightarrow> emit" where
  "extractContent component p =
     orAbrupt (getProp component ''content'') (\<lambda>content.
       case content of
         Some (JStr s) \<Rightarrow>
           if s \<noteq> [] \<and> trim (stripHtml s) \<noteq> []
           then push (bindE (getComponentContext component) (\<lambda>ctx.
                  Inr (mkFragment (p @ ''.content'') (stripHtml s) ctx T_text)))
           else ([], Normal)
       | _ \<Rightarrow> ([], Normal))"

text \<open>The loop of \<open>extractFromAttributes\<close> over the keys of \<open>attributes\<close>.\<close>

definition textualAttributes :: "string list" where
  "textualAttributes = [''alt'', ''title'', ''placeholder'', ''aria-label'', ''data-text'', ''value'']"

fun attributeKeys :: "(string \<times> json) list \<Rightarrow> string \<Rightarrow> json \<Rightarrow> emit" where
  "attributeKeys [] basePath component = ([], Normal)"
| "attributeKeys ((key, v) # kvs) basePath component =
     andThen
       (case v of
          JStr s \<Rightarrow>
            if trim s \<noteq> [] \<and> (key \<in> set textualAttributes \<or> GrapeJSParser_isTextualContent key s)
            then push (bindE (getComponentContext component) (\<lambda>ctx.
                   Inr (mkFragment (basePath @ ''.'' @ key) s (ctx @ '' '' @ key) (getAttributeType key))))
            else ([], Normal)
        | _ \<Rightarrow> ([], Normal))
       (attributeKeys kvs basePath component)"

definition extractFromAttributes :: "json \<Rightarrow> string \<Rightarrow> json \<Rightarrow> emit" where
  "extractFromAttributes attributes basePath component =
     attributeKeys (ownEntries attributes) basePath component"

text \<open>The loop over \<open>component.traits\<close>. \<open>trait.name\<close> has to be a string for
  \<open>toLowerCase\<close> to be a function.\<close>

fun traitItems :: "json list \<Rightarrow> nat \<Rightarrow> string \<Rightarrow> json \<Rightarrow> emit" where
  "traitItems [] traitIndex p component = ([], Normal)"
| "traitItems (trait # traits) traitIndex p component =
     andThen
       (orAbrupt (getProp trait ''value'') (\<lambda>v.
          case v of
            Some (JStr s) \<Rightarrow>
              if s = [] then ([], Normal)
              else orAbrupt (getProp trait ''name'') (\<lambda>name.
                case name of
                  Some (JStr n) \<Rightarrow>
                    if GrapeJSParser_isTextualContent n s
                    then push (bindE (getComponentContext component) (\<lambda>ctx.
                           Inr (mkFragment (p @ ''.traits['' @ showNat traitIndex @ ''].value'') s
                                  (ctx @ '' '' @ n) (getAttributeType n))))
                    else ([], Normal)
                | _ \<Rightarrow> ([], Abrupt))
          | _ \<Rightarrow> ([], Normal)))
       (traitItems traits (Suc traitIndex) p component)"

lemma size_map_of_json:
  "map_of kvs k = Some v \<Longrightarrow> size v < Suc (size_list (size_prod (\<lambda>_. 0) size) kvs)"
  by (induction kvs) (auto split: if_splits)

lemma size_getProp_children:
  "getProp component k = Inr (Some (JArr children)) \<Longrightarrow> size_list size children < size component"
  by (cases component) (auto dest: size_map_of_json)

text \<open>\<open>extractFromComponent\<close>, and its last loop, over the child components.\<close>

function extractFromComponent :: "json \<Rightarrow> string \<Rightarrow> emit"
  and extractChildren :: "json list \<Rightarrow> nat \<Rightarrow> string \<Rightarrow> emit" where
  "extractFromComponent component p =
     andThen (extractContent component p)
       (orAbrupt (getProp component ''attributes'') (\<lambda>attributes.
          andThen
            (case attributes of
               Some a \<Rightarrow> if truthy a then extractFromAttributes a (p @ ''.attributes'') component
                          else ([], Normal)
             | None \<Rightarrow> ([], Normal))
            (orAbrupt (getProp component ''traits'') (\<lambda>traits.
               andThen
                 (forArray traits (\<lambda>ts. traitItems ts 0 p component))
                 (case getProp component ''components'' of
                    Inr (Some (JArr children)) \<Rightarrow> extractChildren children 0 p
                  | Inr _ \<Rightarrow> ([], Normal)
                  | Inl e \<Rightarrow> ([], Abrupt))))))"
| "extractChildren [] childIndex p = ([], Normal)"
| "extractChildren (child # children) childIndex p =
     andThen (extractFromComponent child (p @ ''.components['' @ showNat childIndex @ '']''))
       (extractChildren children (Suc childIndex) p)"
  by pat_completeness auto
termination
  by (relation "measure (\<lambda>x. case x of Inl (c, p) \<Rightarrow> 2 * size c | Inr (cs, i, p) \<Rightarrow> 2 * size_list size cs + 1)")
     (auto dest: size_getProp_children)

declare extractFromComponent.simps [simp del]

text \<open>The components \<open>parse\<close> and \<open>reconstruct\<close> walk:
  \<open>Array.isArray(grapeData) ? grapeData : grapeData.components || []\<close>, and the \<open>forEach\<close>
  on it, which is a function on arrays only.\<close>

definition topComponents :: "json \<Rightarrow> exn + json list" where
  "topComponents grapeData =
     (case grapeData of
        JArr xs \<Rightarrow> Inr xs
      | _ \<Rightarrow> bindE (getProp grapeData ''components'') (\<lambda>c.
               if truthyU c then (case c of Some (JArr xs) \<Rightarrow> Inr xs | _ \<Rightarrow> Inl TypeError)
               else Inr []))"

fun extractComponents :: "json list \<Rightarrow> nat \<Rightarrow> emit" where
  "extractComponents [] index = ([], Normal)"
| "extractComponents (component # components) index =
     andThen (extractFromComponent component (''['' @ showNat index @ '']''))
       (extractComponents components (Suc index))"

definition GrapeJSParser_parse :: "(string \<Rightarrow> json option) \<Rightarrow> string \<Rightarrow> ExtractedText list" where
  "GrapeJSParser_parse JSON_parse content =
     (case JSON_parse content of None \<Rightarrow> []
      | Some grapeData \<Rightarrow>
          fst (orAbrupt (topComponents grapeData) (\<lambda>components. extractComponents components 0)))"

text \<open>
  The loop of \<open>reconstructComponent\<close> over the keys of \<open>component.attributes\<close>:
  \<open>attributes[key] = translationMap.get(attrPath)\<close> for each key whose path is in the map.
  On an object or an array it replaces the value of the key; on a string it throws (the
  indices of a string are read-only).
\<close>

definition reconstructAttributes :: "json \<Rightarrow> string \<Rightarrow> (string \<rightharpoonup> string) \<Rightarrow> exn + json" where
  "reconstructAttributes attributes p tm =
     (case attributes of
        JObj kvs \<Rightarrow> Inr (JObj (map (\<lambda>(key, v). (key, getIfHas tm (p @ ''.attributes.'' @ key) v)) kvs))
      | JArr xs \<Rightarrow> Inr (JArr (map (\<lambda>(key, v). getIfHas tm (p @ ''.attributes.'' @ key) v) (indexed 0 xs)))
      | JStr s \<Rightarrow>
          if \<exists>key \<in> set (map fst (ownEntries attributes)). tm (p @ ''.attributes.'' @ key) \<noteq> None
          then Inl TypeError else Inr attributes
      | _ \<Rightarrow> Inr attributes)"

fun reconstructTraits :: "json list \<Rightarrow> nat \<Rightarrow> string \<Rightarrow> (string \<rightharpoonup> string) \<Rightarrow> exn + json list" where
  "reconstructTraits [] traitIndex p tm = Inr []"
| "reconstructTraits (trait # traits) traitIndex p tm =
     bindE (case tm (p @ ''.traits['' @ showNat traitIndex @ ''].value'') of
              None \<Rightarrow> Inr trait
            | Some t \<Rightarrow> setProp (Some trait) ''value'' (JStr t))
       (\<lambda>trait'. bindE (reconstructTraits traits (Suc traitIndex) p tm)
          (\<lambda>traits'. Inr (trait' # traits')))"

text \<open>The component after a property that it has was updated in place.\<close>

definition withProp :: "json \<Rightarrow> string \<Rightarrow> json \<Rightarrow> json" where
  "withProp component k v = (case component of JObj kvs \<Rightarrow> JObj (assign kvs k v) | _ \<Rightarrow> component)"

text \<open>\<open>reconstructComponent\<close>, and its last loop, over the child components; the result
  is the component after the call.\<close>

function reconstructComponent :: "json \<Rightarrow> string \<Rightarrow> (string \<rightharpoonup> string) \<Rightarrow> exn + json"
  and reconstructChildren :: "json list \<Rightarrow> nat \<Rightarrow> string \<Rightarrow> (string \<rightharpoonup> string) \<Rightarrow> exn + json list" where
  "reconstructComponent component p tm =
     bindE (case tm (p @ ''.content'') of
              None \<Rightarrow> Inr component
            | Some t \<Rightarrow> setProp (Some component) ''content'' (JStr t)) (\<lambda>c1.
     bindE (getProp component ''attributes'') (\<lambda>attributes.
     bindE (case attributes of
              Some a \<Rightarrow> if truthy a
                         then bindE (reconstructAttributes a p tm) (\<lambda>a'. Inr (withProp c1 ''attributes'' a'))
                         else Inr c1
            | None \<Rightarrow> Inr c1) (\<lambda>c2.
     bindE (getProp component ''traits'') (\<lambda>traits.
     bindE (if truthyU traits
            then (case traits of
                    Some (JArr ts) \<Rightarrow>
                      bindE (reconstructTraits ts 0 p tm) (\<lambda>ts'. Inr (withProp c2 ''traits'' (JArr ts')))
                  | _ \<Rightarrow> Inl TypeError)
            else Inr c2) (\<lambda>c3.
     case getProp component ''components'' of
       Inr (Some (JArr children)) \<Rightarrow>
         bindE (reconstructChildren children 0 p tm) (\<lambda>children'.
           Inr (withProp c3 ''components'' (JArr children')))
     | Inr _ \<Rightarrow> Inr c3
     | Inl e \<Rightarrow> Inl e)))))"
| "reconstructChildren [] childIndex p tm = Inr []"
| "reconstructChildren (child # children) childIndex p tm =
     bindE (reconstructComponent child (p @ ''.components['' @ showNat childIndex @ '']'') tm) (\<lambda>child'.
     bindE (reconstructChildren children (Suc childIndex) p tm) (\<lambda>children'.
       Inr (child' # children')))"
  by pat_completeness auto
termination
  by (relation "measure (\<lambda>x. case x of Inl (c, p, tm) \<Rightarrow> 2 * size c | Inr (cs, i, p, tm) \<Rightarrow> 2 * size_list size cs + 1)")
     (auto dest: size_getProp_children)

declare reconstructComponent.simps [simp del]

fun reconstructComponents :: "json list \<Rightarrow> nat \<Rightarrow> (string \<rightharpoonup> string) \<Rightarrow> exn + json list" where
  "reconstructComponents [] index tm = Inr []"
| "reconstructComponents (component # components) index tm =
     bindE (reconstructComponent component (''['' @ showNat index @ '']'') tm) (\<lambda>c.
     bindE (reconstructComponents components (Suc index) tm) (\<lambda>cs. Inr (c # cs)))"

text \<open>\<open>{ ...grapeData, components }\<close>: the own entries of \<open>grapeData\<close> with the key
  \<open>components\<close> set.\<close>

definition spreadWithComponents :: "json \<Rightarrow> json list \<Rightarrow> json" where
  "spreadWithComponents grapeData components =
     JObj (assign (ownEntries grapeData) ''components'' (JArr components))"

text \<open>The body of the \<open>try\<close> of \<open>reconstruct\<close> up to \<open>JSON.stringify\<close>: the value that is
  printed.\<close>

definition rebuildGrapeJS :: "json \<Rightarrow> (string \<rightharpoonup> string) \<Rightarrow> exn + json" where
  "rebuildGrapeJS grapeData tm =
     bindE (topComponents grapeData) (\<lambda>components.
     bindE (reconstructComponents components 0 tm) (\<lambda>components'.
       if isArray (Some grapeData) then Inr (JArr components')
       else Inr (spreadWithComponents grapeData components')))"

definition GrapeJSParser_reconstruct ::
  "(string \<Rightarrow> json option) \<Rightarrow> (json \<Rightarrow> string) \<Rightarrow> string \<Rightarrow> ExtractedText list \<Rightarrow> string" where
  "GrapeJSParser_reconstruct JSON_parse JSON_stringify originalContent translations =
     (case JSON_parse originalContent of None \<Rightarrow> originalContent
      | Some grapeData \<Rightarrow>
          (case rebuildGrapeJS grapeData (pathTranslationMap translations) of
             Inl e \<Rightarrow> originalContent
           | Inr rebuilt \<Rightarrow> JSON_stringify rebuilt))"

section \<open>The HTML parser (htmlParser.ts)\<close>

text \<open>\<open>/<[^>]+>/\<close>\<close>

definition htmlTagPattern :: regex where
  "htmlTagPattern = seqs [Lit CHR ''<'', plus (NCls ''>''), Lit CHR ''>'']"

definition HtmlParser_validate :: "string \<Rightarrow> bool" where
  "HtmlParser_validate content = rx_test htmlTagPattern content"

text \<open>
  \<open>escapeRegex\<close> puts a backslash before each character that has a meaning in a regular
  expression, so the escaped text, compiled by \<open>new RegExp\<close>, matches the text itself:
  the model of the escaped text is \<open>lits text\<close>.

  \<open>new RegExp(`(>\\s*)(${escapedOriginal})(\\s*<)`, 'g')\<close> and
  \<open>new RegExp(`((?:alt|title|placeholder|aria-label|data-text)=["'])(${escapedOriginal})(["'])`, 'g')\<close>
\<close>

definition htmlTextRegex :: "string \<Rightarrow> regex" where
  "htmlTextRegex original =
     seqs [Grp 1 (Seq (Lit CHR ''>'') (star ws)), Grp 2 (lits original), Grp 3 (Seq (star ws) (Lit CHR ''<''))]"

definition quoteChars :: "char list" where
  "quoteChars = [CHR 0x22, CHR 0x27]"

definition htmlAttrRegex :: "string \<Rightarrow> regex" where
  "htmlAttrRegex original =
     seqs [Grp 1 (seqs [Alt (lits ''alt'') (Alt (lits ''title'') (Alt (lits ''placeholder'')
                          (Alt (lits ''aria-label'') (lits ''data-text'')))),
                        Lit CHR ''='', Cls quoteChars]),
           Grp 2 (lits original), Grp 3 (Cls quoteChars)]"

text \<open>The body of the loop of \<open>reconstruct\<close> for one fragment.\<close>

definition isTranslated :: "ExtractedText \<Rightarrow> bool" where
  "isTranslated t =
     (case translatedText t of None \<Rightarrow> False
      | Some tr \<Rightarrow> tr \<noteq> [] \<and> tr \<noteq> originalText t)"

definition htmlReplace :: "string \<Rightarrow> ExtractedText \<Rightarrow> string" where
  "htmlReplace reconstructed t =
     (if isTranslated t
      then replaceAll (htmlAttrRegex (originalText t)) (''$1'' @ the (translatedText t) @ ''$3'')
             (replaceAll (htmlTextRegex (originalText t)) (''$1'' @ the (translatedText t) @ ''$3'')
                reconstructed)
      else reconstructed)"

definition HtmlParser_reconstruct :: "string \<Rightarrow> ExtractedText list \<Rightarrow> string" where
  "HtmlParser_reconstruct originalContent translations = foldl htmlReplace originalContent translations"

section \<open>The Markdown parser (markdownParser.ts)\<close>

text \<open>\<open>/^(#{1,6})\s+(.+)$/\<close>\<close>

definition headerPattern :: regex where
  "headerPattern = seqs [Bol, Grp 1 (Rep 1 (Some 6) (Lit CHR ''#'')), plus ws, Grp 2 (plus dot), Eol]"

text \<open>\<open>/\[([^\]]+)\]\([^)]+\)/g\<close>\<close>

definition linkRegex :: regex where
  "linkRegex = seqs [Lit CHR ''['', Grp 1 (plus (NCls '']'')), Lit CHR '']'', Lit CHR ''('',
                     plus (NCls '')''), Lit CHR '')'']"

text \<open>\<open>/!\[([^\]]*)\]\([^)]+\)/g\<close>\<close>

definition imageRegex :: regex where
  "imageRegex = seqs [Lit CHR ''!'', Lit CHR ''['', Grp 1 (star (NCls '']'')), Lit CHR '']'', Lit CHR ''('',
                      plus (NCls '')''), Lit CHR '')'']"

text \<open>\<open>/^>\s*(.+)$/\<close>\<close>

definition blockquotePattern :: regex where
  "blockquotePattern = seqs [Bol, Lit CHR ''>'', star ws, Grp 1 (plus dot), Eol]"

text \<open>\<open>/^(\s*)([-*+]|\d+\.)\s+(.+)$/\<close>\<close>

definition listPattern :: regex where
  "listPattern = seqs [Bol, Grp 1 (star ws),
                       Grp 2 (Alt (Cls ''-*+'') (Seq (plus (Cls digits)) (Lit CHR ''.''))),
                       plus ws, Grp 3 (plus dot), Eol]"

text \<open>\<open>/\d+\./\<close>\<close>

definition orderedPattern :: regex where
  "orderedPattern = Seq (plus (Cls digits)) (Lit CHR ''.'')"

text \<open>\<open>/^#{1,6}\s+/\<close>, \<open>/^>\s+/\<close> and \<open>/^(\s*)([-*+]|\d+\.)\s+/\<close>\<close>

definition headerStart :: regex where
  "headerStart = seqs [Bol, Rep 1 (Some 6) (Lit CHR ''#''), plus ws]"

definition blockquoteStart :: regex where
  "blockquoteStart = seqs [Bol, Lit CHR ''>'', plus ws]"

definition listStart :: regex where
  "listStart = seqs [Bol, Grp 1 (star ws),
                     Grp 2 (Alt (Cls ''-*+'') (Seq (plus (Cls digits)) (Lit CHR ''.''))), plus ws]"

text \<open>\<open>/\*\*([^*]+)\*\*/g\<close>, \<open>/\*([^*]+)\*/g\<close> and \<open>/`([^`]+)`/g\<close>\<close>

definition boldRegex :: regex where
  "boldRegex = seqs [Lit CHR ''*'', Lit CHR ''*'', Grp 1 (plus (NCls ''*'')), Lit CHR ''*'', Lit CHR ''*'']"

definition italicRegex :: regex where
  "italicRegex = seqs [Lit CHR ''*'', Grp 1 (plus (NCls ''*'')), Lit CHR ''*'']"

definition codeRegex :: regex where
  "codeRegex = seqs [Lit CHR 0x60, Grp 1 (plus (NCls [CHR 0x60])), Lit CHR 0x60]"

definition lineId :: "nat \<Rightarrow> string \<Rightarrow> string" where
  "lineId lineIndex suffix = ''line_'' @ showNat lineIndex @ ''_'' @ suffix"

definition extractHeaders :: "string \<Rightarrow> nat \<Rightarrow> ExtractedText list" where
  "extractHeaders line lineIndex =
     (case rx_match headerPattern line of None \<Rightarrow> []
      | Some headerMatch \<Rightarrow>
          [mkFragment (lineId lineIndex ''header'') (trim (groupText headerMatch 2))
             (''H'' @ showNat (length (groupText headerMatch 1)) @ '' header'') T_text])"

text \<open>The \<open>while (regex.exec(line))\<close> loops of \<open>extractLinks\<close> and \<open>extractImages\<close>, from
  match number \<open>linkIndex\<close> on.\<close>

fun linkFragments :: "nat \<Rightarrow> nat \<Rightarrow> rmatch list \<Rightarrow> ExtractedText list" where
  "linkFragments lineIndex linkIndex [] = []"
| "linkFragments lineIndex linkIndex (m # ms') =
     mkFragment (lineId lineIndex (''link_'' @ showNat linkIndex)) (groupText m 1) ''link text'' T_text
       # linkFragments lineIndex (Suc linkIndex) ms'"

definition extractLinks :: "string \<Rightarrow> nat \<Rightarrow> ExtractedText list" where
  "extractLinks line lineIndex = linkFragments lineIndex 0 (matchAll linkRegex line)"

fun imageFragments :: "nat \<Rightarrow> nat \<Rightarrow> rmatch list \<Rightarrow> ExtractedText list" where
  "imageFragments lineIndex imageIndex [] = []"
| "imageFragments lineIndex imageIndex (m # ms') =
     (if trim (groupText m 1) \<noteq> []
      then [mkFragment (lineId lineIndex (''image_'' @ showNat imageIndex)) (groupText m 1)
              ''image alt text'' T_alt]
      else [])
       @ imageFragments lineIndex (Suc imageIndex) ms'"

definition extractImages :: "string \<Rightarrow> nat \<Rightarrow> ExtractedText list" where
  "extractImages line lineIndex = imageFragments lineIndex 0 (matchAll imageRegex line)"

definition extractBlockquotes :: "string \<Rightarrow> nat \<Rightarrow> ExtractedText list" where
  "extractBlockquotes line lineIndex =
     (case rx_match blockquotePattern line of None \<Rightarrow> []
      | Some blockquoteMatch \<Rightarrow>
          [mkFragment (lineId lineIndex ''blockquote'') (trim (groupText blockquoteMatch 1))
             ''blockquote'' T_text])"

definition extractListItems :: "string \<Rightarrow> nat \<Rightarrow> ExtractedText list" where
  "extractListItems line lineIndex =
     (case rx_match listPattern line of None \<Rightarrow> []
      | Some listMatch \<Rightarrow>
          [mkFragment (lineId lineIndex ''list_item'') (trim (groupText listMatch 3))
             ((if rx_test orderedPattern (groupText listMatch 2) then ''ordered'' else ''unordered'')
                @ '' list item'') T_text])"

definition extractPlainText :: "string \<Rightarrow> nat \<Rightarrow> ExtractedText list" where
  "extractPlainText line lineIndex =
     (if rx_test headerStart line \<or> rx_test blockquoteStart line \<or> rx_test listStart line then []
      else let cleanText =
                 trim (replaceAll imageRegex []
                        (replaceAll linkRegex ''$1''
                          (replaceAll codeRegex ''$1''
                            (replaceAll italicRegex ''$1''
                              (replaceAll boldRegex ''$1'' line)))))
           in if cleanText \<noteq> [] \<and> length cleanText > 2
              then [mkFragment (lineId lineIndex ''text'') cleanText ''paragraph text'' T_text]
              else [])"

text \<open>The \<open>lines.forEach\<close> loop of \<open>parse\<close>, with its two variables \<open>inCodeBlock\<close> and
  \<open>codeBlockFence\<close>.\<close>

definition fence :: string where
  "fence = [CHR 0x60, CHR 0x60, CHR 0x60]"

fun parseLines :: "string list \<Rightarrow> nat \<Rightarrow> bool \<Rightarrow> string \<Rightarrow> ExtractedText list" where
  "parseLines [] lineIndex inCodeBlock codeBlockFence = []"
| "parseLines (line # rest) lineIndex inCodeBlock codeBlockFence =
     (if startsWith (trim line) fence then
        (if \<not> inCodeBlock then parseLines rest (Suc lineIndex) True (trim line)
         else if trim line = codeBlockFence \<or> trim line = fence
              then parseLines rest (Suc lineIndex) False []
              else parseLines rest (Suc lineIndex) inCodeBlock codeBlockFence)
      else if inCodeBlock then parseLines rest (Suc lineIndex) inCodeBlock codeBlockFence
      else extractHeaders line lineIndex @ extractLinks line lineIndex
           @ extractImages line lineIndex @ extractBlockquotes line lineIndex
           @ extractListItems line lineIndex @ extractPlainText line lineIndex
           @ parseLines rest (Suc lineIndex) inCodeBlock codeBlockFence)"

definition MarkdownParser_parse :: "string \<Rightarrow> ExtractedText list" where
  "MarkdownParser_parse content = parseLines (split content CHR 0x0A) 0 False []"

text \<open>The patterns of \<open>validate\<close>: \<open>/^#{1,6}\s+/m\<close>, \<open>/\*\*.*\*\*/\<close>, \<open>/\*.*\*/\<close>,
  \<open>/\[.*\]\(.*\)/\<close>, \<open>/^[-*+]\s+/m\<close>, \<open>/^>\s+/m\<close> and \<open>/```[\s\S]*```/\<close>.\<close>

definition markdownPatterns :: "regex list" where
  "markdownPatterns =
     [seqs [BolM, Rep 1 (Some 6) (Lit CHR ''#''), plus ws],
      seqs [Lit CHR ''*'', Lit CHR ''*'', star dot, Lit CHR ''*'', Lit CHR ''*''],
      seqs [Lit CHR ''*'', star dot, Lit CHR ''*''],
      seqs [Lit CHR ''['', star dot, Lit CHR '']'', Lit CHR ''('', star dot, Lit CHR '')''],
      seqs [BolM, Cls ''-*+'', plus ws],
      seqs [BolM, Lit CHR ''>'', plus ws],
      seqs [lits fence, star (NCls []), lits fence]]"

definition MarkdownParser_validate :: "string \<Rightarrow> bool" where
  "MarkdownParser_validate content = (\<exists>pattern \<in> set markdownPatterns. rx_test pattern content)"

text \<open>\<open>new RegExp(`(!\\[)(${escapedOriginal})(\\]\\([^)]+\\))`, 'g')\<close> and
  \<open>new RegExp(`\\b${escapedOriginal}\\b`, 'g')\<close>\<close>

definition mdImageRegex :: "string \<Rightarrow> regex" where
  "mdImageRegex original =
     seqs [Grp 1 (lits ''!['' ), Grp 2 (lits original),
           Grp 3 (seqs [Lit CHR '']'', Lit CHR ''('', plus (NCls '')''), Lit CHR '')''])]"

definition mdTextRegex :: "string \<Rightarrow> regex" where
  "mdTextRegex original = seqs [WordB, lits original, WordB]"

text \<open>The body of the loop of \<open>reconstruct\<close> for one fragment.\<close>

definition markdownReplace :: "string \<Rightarrow> ExtractedText \<Rightarrow> string" where
  "markdownReplace reconstructed t =
     (if isTranslated t
      then (if ftype t = T_alt
            then replaceAll (mdImageRegex (originalText t)) (''$1'' @ the (translatedText t) @ ''$3'')
                   reconstructed
            else replaceAll (mdTextRegex (originalText t)) (the (translatedText t)) reconstructed)
      else reconstructed)"

definition MarkdownParser_reconstruct :: "string \<Rightarrow> ExtractedText list \<Rightarrow> string" where
  "MarkdownParser_reconstruct originalContent translations =
     foldl markdownReplace originalContent translations"

section \<open>The parser registry (contentParsers/index.ts)\<close>

datatype ContentType =
  PLAIN_TEXT | HTML | MARKDOWN | EDITOR_JS | GRAPE_JS | JSON | RICH_TEXT | STRUCTURED_DATA

text \<open>A parser as the registry sees it: its \<open>type\<close> and its \<open>validate\<close>.\<close>

record ContentParser =
  parser_type :: ContentType
  validate :: "string \<Rightarrow> bool"

text \<open>The initial value of the static field \<open>parsers\<close>.\<close>

definition parsers :: "(string \<Rightarrow> json option) \<Rightarrow> ContentParser list" where
  "parsers JSON_parse =
     [\<lparr>parser_type = EDITOR_JS, validate = EditorJSParser_validate JSON_parse\<rparr>,
      \<lparr>parser_type = GRAPE_JS, validate = GrapeJSParser_validate JSON_parse\<rparr>,
      \<lparr>parser_type = HTML, validate = HtmlParser_validate\<rparr>,
      \<lparr>parser_type = JSON, validate = JsonParser_validate JSON_parse\<rparr>,
      \<lparr>parser_type = MARKDOWN, validate = MarkdownParser_validate\<rparr>]"

text \<open>\<open>registerParser\<close> pushes a parser at the end of the list.\<close>

definition registerParser :: "ContentParser list \<Rightarrow> ContentParser \<Rightarrow> ContentParser list" where
  "registerParser ps parser = ps @ [parser]"

text \<open>\<open>getParser\<close>, on the current value \<open>ps\<close> of the list: the first parser whose
  \<open>validate\<close> accepts the content, \<open>None\<close> for \<open>null\<close>.\<close>

fun getParser :: "ContentParser list \<Rightarrow> string \<Rightarrow> ContentParser option" where
  "getParser [] content = None"
| "getParser (parser # ps) content =
     (if validate parser content then Some parser else getParser ps content)"

definition getParserByType :: "ContentParser list \<Rightarrow> ContentType \<Rightarrow> ContentParser option" where
  "getParserByType ps contentType = find (\<lambda>parser. parser_type parser = contentType) ps"

section \<open>The translation orchestrator (enhancedTranslationService.ts, translationService.ts)\<close>

datatype TranslationStatus = PENDING | IN_PROGRESS | COMPLETED | FAILED | REVIEW_NEEDED | APPROVED

datatype TranslationProvider = DEEPL | GOOGLE | MANUAL

record Metadata =
  md_contentType :: string
  md_entityId :: string
  md_field :: string

text \<open>\<open>Omit<Translation, 'id' | 'createdAt' | 'updatedAt'>\<close>, the body of the request, and
  \<open>Translation\<close>, what the service answers.\<close>

record NewTranslation =
  t_sourceText :: string
  t_translatedText :: string
  t_sourceLanguage :: string
  t_targetLanguage :: string
  t_context :: string
  t_status :: TranslationStatus
  t_provider :: TranslationProvider
  t_contentType :: ContentType
  t_metadata :: Metadata

record Translation = NewTranslation +
  t_id :: string
  t_createdAt :: string
  t_updatedAt :: string

record ApiResponse =
  resp_success :: bool
  resp_data :: "Translation option"
  resp_error :: "string option"

text \<open>
  The HTTP client is outside the program: \<open>post k body\<close> is what the \<open>k\<close>-th request that
  \<open>translateExtractedTexts\<close> issues gets back, \<open>Inl\<close> of the error when the request is
  rejected, \<open>Inr\<close> of the response body otherwise.

  \<open>createTranslation\<close> throws when the response says \<open>success: false\<close>; it returns
  \<open>response.data.data\<close>, which may be \<open>undefined\<close>.
\<close>

definition createTranslation ::
  "(NewTranslation \<Rightarrow> string + ApiResponse) \<Rightarrow> NewTranslation \<Rightarrow> string + Translation option" where
  "createTranslation post_request translation =
     (case post_request translation of
        Inl e \<Rightarrow> Inl e
      | Inr response \<Rightarrow>
          if \<not> resp_success response
          then Inl (case resp_error response of Some m \<Rightarrow> if m = [] then ''Failed to create translation'' else m
                    | None \<Rightarrow> ''Failed to create translation'')
          else Inr (resp_data response))"

definition fragTypeName :: "fragType \<Rightarrow> string" where
  "fragTypeName ty =
     (case ty of T_text \<Rightarrow> ''text'' | T_alt \<Rightarrow> ''alt'' | T_title \<Rightarrow> ''title''
      | T_placeholder \<Rightarrow> ''placeholder'' | T_meta \<Rightarrow> ''meta'')"

definition translationRequest :: "ExtractedText \<Rightarrow> string \<Rightarrow> string \<Rightarrow> NewTranslation" where
  "translationRequest extracted sourceLanguage targetLanguage =
     \<lparr>t_sourceText = originalText extracted, t_translatedText = [],
      t_sourceLanguage = sourceLanguage, t_targetLanguage = targetLanguage,
      t_context = context_of extracted, t_status = PENDING, t_provider = DEEPL,
      t_contentType = PLAIN_TEXT,
      t_metadata = \<lparr>md_contentType = ''extracted_text'', md_entityId = ext_id extracted,
                     md_field = fragTypeName (ftype extracted)\<rparr>\<rparr>"

text \<open>
  The body of \<open>batch.map(async (extracted) => ..)\<close> for the fragment at position \<open>k\<close>: the
  value its promise resolves to. Reading \<open>translation.translatedText\<close> of an \<open>undefined\<close>
  answer throws inside the \<open>try\<close>, so it ends in the \<open>catch\<close> as a rejected request does.
\<close>

definition translateOne ::
  "(nat \<Rightarrow> NewTranslation \<Rightarrow> string + ApiResponse) \<Rightarrow> string \<Rightarrow> string \<Rightarrow> nat \<Rightarrow> ExtractedText
     \<Rightarrow> ExtractedText" where
  "translateOne post_request sourceLanguage targetLanguage k extracted =
     (case createTranslation (post_request k) (translationRequest extracted sourceLanguage targetLanguage) of
        Inr (Some translation) \<Rightarrow> extracted\<lparr>translatedText := Some (t_translatedText translation)\<rparr>
      | _ \<Rightarrow> extracted\<lparr>translatedText := Some (originalText extracted)\<rparr>)"

text \<open>
  \<open>Promise.all\<close>: the promises settle in some order, each one fills the slot of its own
  position, and the result is the list of the slots once every slot is filled. \<open>None\<close>:
  a promise never settles, and neither does \<open>Promise.all\<close>.
\<close>

fun fillSlots :: "'a list \<Rightarrow> nat list \<Rightarrow> 'a option list \<Rightarrow> 'a option list" where
  "fillSlots vals [] slots = slots"
| "fillSlots vals (k # ks) slots =
     fillSlots vals ks (if k < length vals then slots[k := Some (vals ! k)] else slots)"

definition promiseAll :: "'a list \<Rightarrow> nat list \<Rightarrow> 'a list option" where
  "promiseAll vals completionOrder =
     (let slots = fillSlots vals completionOrder (replicate (length vals) None)
      in if None \<in> set slots then None else Some (map the slots))"

definition batchSize :: nat where
  "batchSize = 10"

text \<open>
  The \<open>for\<close> loop of \<open>translateExtractedTexts\<close>, from \<open>i\<close> on, with the \<open>results\<close> so far.
  The batch is \<open>extractedTexts.slice(i, i + batchSize)\<close>; \<open>completion i\<close> is the order in
  which the requests of the batch that starts at \<open>i\<close> complete (positions within the
  batch). The delay between two batches has no effect on the result.
\<close>

function translateLoop ::
  "(nat \<Rightarrow> NewTranslation \<Rightarrow> string + ApiResponse) \<Rightarrow> string \<Rightarrow> string \<Rightarrow> (nat \<Rightarrow> nat list)
     \<Rightarrow> ExtractedText list \<Rightarrow> nat \<Rightarrow> ExtractedText list \<Rightarrow> ExtractedText list option" where
  "translateLoop post_request sourceLanguage targetLanguage completion extractedTexts i results =
     (if i < length extractedTexts then
        (case promiseAll
                (map (\<lambda>k. translateOne post_request sourceLanguage targetLanguage k (extractedTexts ! k))
                   [i ..< min (i + batchSize) (length extractedTexts)])
                (completion i) of
           None \<Rightarrow> None
         | Some batchResults \<Rightarrow>
             translateLoop post_request sourceLanguage targetLanguage completion extractedTexts
               (i + batchSize) (results @ batchResults))
      else Some results)"
  by pat_completeness auto
termination
  by (relation "measure (\<lambda>(p, s, t, c, xs, i, r). length xs - i)") (auto simp: batchSize_def)

declare translateLoop.simps [simp del]

definition translateExtractedTexts ::
  "(nat \<Rightarrow> NewTranslation \<Rightarrow> string + ApiResponse) \<Rightarrow> (nat \<Rightarrow> nat list) \<Rightarrow> ExtractedText list
     \<Rightarrow> string \<Rightarrow> string \<Rightarrow> ExtractedText list option" where
  "translateExtractedTexts post_request completion extractedTexts sourceLanguage targetLanguage =
     translateLoop post_request sourceLanguage targetLanguage completion extractedTexts 0 []"

text \<open>Every request of every batch completes: the completion order of the batch that
  starts at \<open>i\<close> names each position of the batch.\<close>

definition allComplete :: "(nat \<Rightarrow> nat list) \<Rightarrow> nat \<Rightarrow> bool" where
  "allComplete completion n =
     (\<forall>i < n. \<forall>k < min batchSize (n - i). k \<in> set (completion i))"

section \<open>The backend adapter (deeplService.ts)\<close>

text \<open>What the response interceptor gets from the HTTP client: the status of the response
  when there is one, and whether its body (\<open>error.response.data\<close>) is \<open>null\<close> or
  \<open>undefined\<close>; the error code otherwise.\<close>

record AxiosError =
  response_status :: "nat option"
  response_data_nullish :: bool
  error_code :: "string option"

text \<open>The errors \<open>handleApiError\<close> makes, one constructor for each message of its
  \<open>switch\<close>, and the \<open>TypeError\<close> of \<open>data.message\<close> on a body that is \<open>null\<close> or
  \<open>undefined\<close>: thrown in the interceptor, it rejects the request as the returned errors
  do.\<close>

datatype apiError =
    BadRequest | AuthFailed | Forbidden | PayloadTooLarge | RateLimited | QuotaExceeded
  | ServiceUnavailable | ApiError nat | Timeout | NetworkError | DataTypeError

definition handleApiError :: "AxiosError \<Rightarrow> apiError" where
  "handleApiError err =
     (case response_status err of
        Some status \<Rightarrow>
          if status = 400 then (if response_data_nullish err then DataTypeError else BadRequest)
          else if status = 401 then AuthFailed
          else if status = 403 then Forbidden
          else if status = 413 then PayloadTooLarge
          else if status = 429 then RateLimited
          else if status = 456 then QuotaExceeded
          else if status = 503 then ServiceUnavailable
          else if response_data_nullish err then DataTypeError
          else ApiError status
      | None \<Rightarrow> if error_code err = Some ''ECONNABORTED'' then Timeout else NetworkError)"

text \<open>
  \<open>executeWithRetry\<close>. \<open>operation k\<close> is what the \<open>k\<close>-th call of the operation ends with.
  The result says how the function ends (\<open>Inl\<close>: it throws \<open>lastError\<close>, which is
  \<open>undefined\<close> when the loop never ran), how often it called the operation, and the
  delays it waited, in order.
\<close>

record 'a retryResult =
  outcome :: "apiError option + 'a"
  attempts :: nat
  delays :: "int list"

function retryLoop ::
  "(nat \<Rightarrow> apiError + 'a) \<Rightarrow> int \<Rightarrow> int \<Rightarrow> nat \<Rightarrow> apiError option \<Rightarrow> int list \<Rightarrow> 'a retryResult" where
  "retryLoop operation maxRetries retryDelay attempt lastError waited =
     (if int attempt \<le> maxRetries then
        (case operation attempt of
           Inr v \<Rightarrow> \<lparr>outcome = Inr v, attempts = Suc attempt, delays = waited\<rparr>
         | Inl e \<Rightarrow>
             retryLoop operation maxRetries retryDelay (Suc attempt) (Some e)
               (if int attempt < maxRetries then waited @ [retryDelay * 2 ^ attempt] else waited))
      else \<lparr>outcome = Inl lastError, attempts = attempt, delays = waited\<rparr>)"
  by pat_completeness auto
termination
  by (relation "measure (\<lambda>(operation, maxRetries, retryDelay, attempt, lastError, waited).
                  nat (maxRetries + 1 - int attempt))") auto

declare retryLoop.simps [simp del]

definition executeWithRetry :: "(nat \<Rightarrow> apiError + 'a) \<Rightarrow> int \<Rightarrow> int \<Rightarrow> 'a retryResult" where
  "executeWithRetry operation maxRetries retryDelay = retryLoop operation maxRetries retryDelay 0 None []"

subsection \<open>The translation memory\<close>

text \<open>Time stamps are numbers; \<open>now\<close> is what the clock shows during a call.\<close>

record TranslationMemoryEntry =
  m_id :: string
  m_sourceText :: string
  m_translatedText :: "string option"
  m_sourceLanguage :: string
  m_targetLanguage :: string
  m_contentType :: string
  m_confidence :: nat
  m_createdAt :: nat
  m_usageCount :: nat
  m_lastUsed :: nat

text \<open>\<open>n.toString(36)\<close> for a natural number.\<close>

definition digits36 :: "char list" where
  "digits36 = digits @ lowerLetters"

function toString36 :: "nat \<Rightarrow> string" where
  "toString36 n = (if n < 36 then [digits36 ! n] else toString36 (n div 36) @ [digits36 ! (n mod 36)])"
  by pat_completeness auto
termination
  by (relation "measure id") auto

declare toString36.simps [simp del]

text \<open>\<open>simpleHash\<close>: the hash is kept in 32 bits (\<open>hash & hash\<close>), as a signed number.\<close>

definition hashStep :: "32 word \<Rightarrow> char \<Rightarrow> 32 word" where
  "hashStep hash c = (push_bit 5 hash - hash) + of_nat (of_char c)"

definition simpleHash :: "string \<Rightarrow> string" where
  "simpleHash str = toString36 (nat \<bar>sint (foldl hashStep 0 str)\<bar>)"

definition getMemoryKey :: "string \<Rightarrow> string \<Rightarrow> string \<Rightarrow> string" where
  "getMemoryKey text sourceLanguage targetLanguage =
     sourceLanguage @ ''-'' @ targetLanguage @ ''-'' @ simpleHash (toLowerCase (trim text))"

type_synonym memory = "string \<rightharpoonup> TranslationMemoryEntry"

text \<open>\<open>checkTranslationMemory\<close>: the \<open>map\<close> over the texts, which updates the entries it
  finds; the result is the list of cached translations (\<open>None\<close> for \<open>null\<close>) and the
  memory after the call.\<close>

fun checkTranslationMemory ::
  "memory \<Rightarrow> nat \<Rightarrow> string list \<Rightarrow> string \<Rightarrow> string \<Rightarrow> string option list \<times> memory" where
  "checkTranslationMemory mem now [] sourceLanguage targetLanguage = ([], mem)"
| "checkTranslationMemory mem now (text # texts) sourceLanguage targetLanguage =
     (let key = getMemoryKey text sourceLanguage targetLanguage in
      case mem key of
        Some entry \<Rightarrow>
          (let r = checkTranslationMemory
                     (mem(key \<mapsto> entry\<lparr>m_usageCount := m_usageCount entry + 1, m_lastUsed := now\<rparr>))
                     now texts sourceLanguage targetLanguage
           in (m_translatedText entry # fst r, snd r))
      | None \<Rightarrow>
          (let r = checkTranslationMemory mem now texts sourceLanguage targetLanguage
           in (None # fst r, snd r)))"

text \<open>\<open>storeInTranslationMemory\<close>: the loop from index \<open>i\<close>; \<open>translatedTexts[i]\<close> is
  \<open>undefined\<close> beyond the end of the list.\<close>

definition nthOpt :: "'a list \<Rightarrow> nat \<Rightarrow> 'a option" where
  "nthOpt xs i = (if i < length xs then Some (xs ! i) else None)"

fun storeLoop ::
  "memory \<Rightarrow> nat \<Rightarrow> string list \<Rightarrow> string list \<Rightarrow> nat \<Rightarrow> string \<Rightarrow> string \<Rightarrow> memory" where
  "storeLoop mem now [] translatedTexts i sourceLanguage targetLanguage = mem"
| "storeLoop mem now (sourceText # sourceTexts) translatedTexts i sourceLanguage targetLanguage =
     (let key = getMemoryKey sourceText sourceLanguage targetLanguage in
      storeLoop
        (mem(key \<mapsto> \<lparr>m_id = key, m_sourceText = sourceText, m_translatedText = nthOpt translatedTexts i,
                      m_sourceLanguage = sourceLanguage, m_targetLanguage = targetLanguage,
                      m_contentType = ''text'', m_confidence = 1, m_createdAt = now,
                      m_usageCount = 1, m_lastUsed = now\<rparr>))
        now sourceTexts translatedTexts (Suc i) sourceLanguage targetLanguage)"

definition storeInTranslationMemory ::
  "memory \<Rightarrow> nat \<Rightarrow> string list \<Rightarrow> string list \<Rightarrow> string \<Rightarrow> string \<Rightarrow> memory" where
  "storeInTranslationMemory mem now sourceTexts translatedTexts sourceLanguage targetLanguage =
     storeLoop mem now sourceTexts translatedTexts 0 sourceLanguage targetLanguage"

subsection \<open>translateText\<close>

record DeepLTranslationRequest =
  req_text :: "string list"
  req_target_lang :: string
  req_source_lang :: "string option"

record DeepLTranslation =
  detected_source_language :: "string option"
  tr_text :: string

text \<open>A string that may be \<open>undefined\<close> or \<open>null\<close> is truthy when it is there and not
  empty.\<close>

definition truthyS :: "string option \<Rightarrow> bool" where
  "truthyS v = (case v of None \<Rightarrow> False | Some s \<Rightarrow> s \<noteq> [])"

text \<open>The merge loop of \<open>translateText\<close>, with \<open>uncachedIndex\<close>.\<close>

fun mergeResults :: "string option list \<Rightarrow> string list \<Rightarrow> nat \<Rightarrow> string option list" where
  "mergeResults [] translations uncachedIndex = []"
| "mergeResults (c # cachedResults) translations uncachedIndex =
     (if truthyS c then c # mergeResults cachedResults translations uncachedIndex
      else nthOpt translations uncachedIndex # mergeResults cachedResults translations (Suc uncachedIndex))"

text \<open>
  What a call of \<open>translateText\<close> does: how it ends (\<open>Inl\<close>: it throws), the translation
  memory after it, and the requests it sent to the service, in order.
\<close>

record translateResult =
  returned :: "apiError option + string option list"
  memoryAfter :: memory
  requests :: "DeepLTranslationRequest list"

text \<open>
  \<open>translateText(texts, targetLanguage, sourceLanguage)\<close>, without \<open>options\<close>, on the
  translation memory \<open>mem\<close>. \<open>post k request\<close> is what the \<open>k\<close>-th request of this call
  ends with: the error the interceptor made from it, or the translations of the response.
  \<open>maxRetries\<close> and \<open>retryDelay\<close> are the two fields of the configuration.
\<close>

definition translateText ::
  "(nat \<Rightarrow> DeepLTranslationRequest \<Rightarrow> AxiosError + DeepLTranslation list) \<Rightarrow> int \<Rightarrow> int
     \<Rightarrow> memory \<Rightarrow> nat \<Rightarrow> string list \<Rightarrow> string \<Rightarrow> string option \<Rightarrow> translateResult" where
  "translateText post_request maxRetries retryDelay mem now texts targetLanguage sourceLanguage =
     (let checked = checkTranslationMemory mem now texts
                      (if truthyS sourceLanguage then the sourceLanguage else ''auto'') targetLanguage;
          cachedResults = fst checked;
          uncachedTexts = map fst (filter (\<lambda>(t, c). \<not> truthyS c) (zip texts cachedResults))
      in if uncachedTexts = []
         then \<lparr>returned = Inr cachedResults, memoryAfter = snd checked, requests = []\<rparr>
         else
           (let request = \<lparr>req_text = uncachedTexts, req_target_lang = toUpperCase targetLanguage,
                           req_source_lang =
                             (if truthyS sourceLanguage \<and> sourceLanguage \<noteq> Some ''auto''
                              then Some (toUpperCase (the sourceLanguage)) else None)\<rparr>;
                r = executeWithRetry
                      (\<lambda>k. case post_request k request of Inl err \<Rightarrow> Inl (handleApiError err)
                            | Inr response \<Rightarrow> Inr response)
                      maxRetries retryDelay
            in case outcome r of
                 Inl e \<Rightarrow> \<lparr>returned = Inl e, memoryAfter = snd checked,
                           requests = replicate (attempts r) request\<rparr>
               | Inr response \<Rightarrow>
                   (let translations = map tr_text response;
                        detected = (case response of [] \<Rightarrow> None | t # _ \<Rightarrow> detected_source_language t)
                    in \<lparr>returned = Inr (mergeResults cachedResults translations 0),
                        memoryAfter =
                          storeInTranslationMemory (snd checked) now uncachedTexts translations
                            (if truthyS sourceLanguage then the sourceLanguage
                             else if truthyS detected then the detected else ''auto'')
                            targetLanguage,
                        requests = replicate (attempts r) request\<rparr>)))"

section \<open>Positions of a document\<close>

text \<open>
  The positions below a value that \<open>extractFromObject\<close> and \<open>reconstructObject\<close> visit
  (the members of the objects and the elements of the arrays, at any depth), each with
  the path the two functions compute for it.
\<close>

fun positions :: "json \<Rightarrow> string \<Rightarrow> (string \<times> json) list"
  and positionsItems :: "json list \<Rightarrow> nat \<Rightarrow> string \<Rightarrow> (string \<times> json) list"
  and positionsKeys :: "(string \<times> json) list \<Rightarrow> string \<Rightarrow> (string \<times> json) list" where
  "positions (JArr xs) p = positionsItems xs 0 p"
| "positions (JObj kvs) p = positionsKeys kvs p"
| "positions JNull p = []"
| "positions (JBool b) p = []"
| "positions (JNum n) p = []"
| "positions (JStr s) p = []"
| "positionsItems [] i p = []"
| "positionsItems (x # xs) i p =
     (itemPath p i, x) # positions x (itemPath p i) @ positionsItems xs (Suc i) p"
| "positionsKeys [] p = []"
| "positionsKeys ((k, v) # kvs) p =
     (keyPath p k, v) # positions v (keyPath p k) @ positionsKeys kvs p"

text \<open>A position by its place in the tree: the keys and indices that lead to it.\<close>

datatype step = Key string | Idx nat

fun jget :: "json \<Rightarrow> step list \<Rightarrow> json option" where
  "jget j [] = Some j"
| "jget (JObj kvs) (Key k # a) = (case map_of kvs k of None \<Rightarrow> None | Some v \<Rightarrow> jget v a)"
| "jget (JArr xs) (Idx i # a) = (if i < length xs then jget (xs ! i) a else None)"
| "jget j (s # a) = None"

fun stepPath :: "string \<Rightarrow> step \<Rightarrow> string" where
  "stepPath p (Key k) = keyPath p k"
| "stepPath p (Idx i) = itemPath p i"

text \<open>The path of the position that the steps \<open>a\<close> lead to, from a value with path \<open>p\<close>.\<close>

fun addrPath :: "string \<Rightarrow> step list \<Rightarrow> string" where
  "addrPath p [] = p"
| "addrPath p (s # a) = addrPath (stepPath p s) a"

text \<open>No position on the way along \<open>a\<close>, the last one included, has its path in the map.\<close>

fun unmatched :: "(string \<rightharpoonup> string) \<Rightarrow> string \<Rightarrow> step list \<Rightarrow> bool" where
  "unmatched tm p [] = True"
| "unmatched tm p (s # a) = (tm (stepPath p s) = None \<and> unmatched tm (stepPath p s) a)"

definition isLeaf :: "json \<Rightarrow> bool" where
  "isLeaf v = (case v of JArr xs \<Rightarrow> False | JObj kvs \<Rightarrow> False | _ \<Rightarrow> True)"

text \<open>Two values of the same structure: the same nesting of arrays and objects, arrays of
  the same length, objects with the same keys in the same order; leaves may differ.\<close>

fun sameShape :: "json \<Rightarrow> json \<Rightarrow> bool"
  and sameShapeItems :: "json list \<Rightarrow> json list \<Rightarrow> bool"
  and sameShapeKeys :: "(string \<times> json) list \<Rightarrow> (string \<times> json) list \<Rightarrow> bool" where
  "sameShape (JArr xs) w = (case w of JArr ys \<Rightarrow> sameShapeItems xs ys | _ \<Rightarrow> False)"
| "sameShape (JObj kvs) w = (case w of JObj kws \<Rightarrow> sameShapeKeys kvs kws | _ \<Rightarrow> False)"
| "sameShape JNull w = isLeaf w"
| "sameShape (JBool b) w = isLeaf w"
| "sameShape (JNum n) w = isLeaf w"
| "sameShape (JStr s) w = isLeaf w"
| "sameShapeItems [] ys = (ys = [])"
| "sameShapeItems (x # xs) ys =
     (case ys of [] \<Rightarrow> False | y # ys' \<Rightarrow> sameShape x y \<and> sameShapeItems xs ys')"
| "sameShapeKeys [] kws = (kws = [])"
| "sameShapeKeys ((k, v) # kvs) kws =
     (case kws of [] \<Rightarrow> False | (k', w) # kws' \<Rightarrow> k = k' \<and> sameShape v w \<and> sameShapeKeys kvs kws')"

text \<open>The fragments of an extraction with a translation that returns its input.\<close>

definition untranslated :: "ExtractedText list \<Rightarrow> ExtractedText list" where
  "untranslated fragments = map (\<lambda>f. f\<lparr>translatedText := Some (originalText f)\<rparr>) fragments"

section \<open>Properties\<close>

lemma extractFromObject_textual:
  "f \<in> set (extractFromObject j p ctx) \<Longrightarrow> JsonParser_isTextualContent (originalText f)"
  "f \<in> set (extractItems xs i p ctx) \<Longrightarrow> JsonParser_isTextualContent (originalText f)"
  "f \<in> set (extractKeys kvs p ctx) \<Longrightarrow> JsonParser_isTextualContent (originalText f)"
  by (induction j p ctx and xs i p ctx and kvs p ctx rule: extractFromObject_extractItems_extractKeys.induct)
     (auto split: if_splits)


subsection \<open>The translation map\<close>

lemma pathTranslationMap_Some:
  assumes "pathTranslationMap translations q = Some t"
  shows "\<exists>f \<in> set translations. path f = q \<and> t = translationOrOriginal f"
proof -
  have "(q, t) \<in> set (rev (map (\<lambda>f. (path f, translationOrOriginal f)) translations))"
    using assms unfolding pathTranslationMap_def by (rule map_of_SomeD)
  then show ?thesis by auto
qed

lemma pathTranslationMap_None:
  "(pathTranslationMap translations q = None) = (q \<notin> path ` set translations)"
  by (simp add: pathTranslationMap_def map_of_eq_None_iff image_image)

lemma translationOrOriginal_untranslated:
  "f \<in> set (untranslated fragments) \<Longrightarrow> translationOrOriginal f = originalText f"
  by (auto simp: untranslated_def translationOrOriginal_def)

subsection \<open>Rebuilding a JSON document\<close>

lemma reconstructObject_fixed:
  "\<forall>(q, v) \<in> set (positions j p). \<forall>t. tm q = Some t \<longrightarrow> v = JStr t
     \<Longrightarrow> reconstructObject j p tm = j"
  "\<forall>(q, v) \<in> set (positionsItems xs i p). \<forall>t. tm q = Some t \<longrightarrow> v = JStr t
     \<Longrightarrow> reconstructItems xs i p tm = xs"
  "\<forall>(q, v) \<in> set (positionsKeys kvs p). \<forall>t. tm q = Some t \<longrightarrow> v = JStr t
     \<Longrightarrow> reconstructKeys kvs p tm = kvs"
  by (induction j p tm and xs i p tm and kvs p tm
      rule: reconstructObject_reconstructItems_reconstructKeys.induct)
     (auto split: option.splits)

lemma extract_positions:
  "f \<in> set (extractFromObject j p ctx) \<Longrightarrow>
     (path f, JStr (originalText f)) \<in> set (positions j p) \<or> (j = JStr (originalText f) \<and> path f = p)"
  "f \<in> set (extractItems xs i p ctx) \<Longrightarrow>
     (path f, JStr (originalText f)) \<in> set (positionsItems xs i p)"
  "f \<in> set (extractKeys kvs p ctx) \<Longrightarrow>
     (path f, JStr (originalText f)) \<in> set (positionsKeys kvs p)"
  by (induction j p ctx and xs i p ctx and kvs p ctx
      rule: extractFromObject_extractItems_extractKeys.induct)
     (auto split: if_splits)

lemma json_round_trip_tree:
  assumes "distinct (map fst (positions j []))"
  shows "reconstructObject j [] (pathTranslationMap (untranslated (extractFromObject j [] ctx))) = j"
proof (rule reconstructObject_fixed(1), clarify)
  fix q v t
  assume pos: "(q, v) \<in> set (positions j [])"
    and hit: "pathTranslationMap (untranslated (extractFromObject j [] ctx)) q = Some t"
  obtain f where f: "f \<in> set (untranslated (extractFromObject j [] ctx))" "path f = q"
    "t = translationOrOriginal f"
    using pathTranslationMap_Some [OF hit] by blast
  then obtain f0 where f0: "f0 \<in> set (extractFromObject j [] ctx)" "path f0 = q" "originalText f0 = t"
    using translationOrOriginal_untranslated [OF f(1)] by (auto simp: untranslated_def)
  have "(q, JStr t) \<in> set (positions j [])"
    using extract_positions(1) [OF f0(1)] f0(2,3) pos by auto
  then show "v = JStr t"
    using pos assms by (meson eq_key_imp_eq_value)
qed

lemma reconstructItems_length: "length (reconstructItems xs i p tm) = length xs"
  by (induction xs arbitrary: i) auto

lemma reconstructItems_nth:
  "n < length xs \<Longrightarrow>
     reconstructItems xs i p tm ! n =
       (case tm (itemPath p (i + n)) of Some t \<Rightarrow> JStr t
        | None \<Rightarrow> reconstructObject (xs ! n) (itemPath p (i + n)) tm)"
proof (induction xs arbitrary: i n)
  case Nil
  then show ?case by simp
next
  case (Cons x xs)
  then show ?case by (cases n) (auto split: option.splits)
qed

lemma reconstructKeys_map_of:
  "map_of (reconstructKeys kvs p tm) k =
     map_option (\<lambda>v. case tm (keyPath p k) of Some t \<Rightarrow> JStr t
                       | None \<Rightarrow> reconstructObject v (keyPath p k) tm) (map_of kvs k)"
  by (induction kvs) (auto split: option.splits)

lemma reconstructObject_leaf: "isLeaf v \<Longrightarrow> reconstructObject v p tm = v"
  by (cases v) (auto simp: isLeaf_def)

lemma jget_append:
  "jget j (a @ b) = (case jget j a of None \<Rightarrow> None | Some w \<Rightarrow> jget w b)"
  by (induction j a rule: jget.induct) (auto split: option.splits)

lemma addrPath_append: "addrPath p (a @ b) = addrPath (addrPath p a) b"
  by (induction a arbitrary: p) auto

lemma jget_reconstruct_step:
  assumes "jget j [s] = Some v"
  shows "jget (reconstructObject j p tm) [s] =
           Some (case tm (stepPath p s) of Some t \<Rightarrow> JStr t
                 | None \<Rightarrow> reconstructObject v (stepPath p s) tm)"
proof (cases j)
  case (JArr xs)
  then obtain i where s: "s = Idx i" "i < length xs" "v = xs ! i"
    using assms by (cases s) (auto split: if_splits)
  then show ?thesis
    using JArr by (simp add: reconstructItems_length reconstructItems_nth split: option.splits)
next
  case (JObj kvs)
  then obtain k where s: "s = Key k" "map_of kvs k = Some v"
    using assms by (cases s) (auto split: option.splits)
  then show ?thesis
    using JObj by (simp add: reconstructKeys_map_of split: option.splits)
qed (use assms in auto)

lemma jget_reconstruct_unmatched:
  "jget j a = Some v \<Longrightarrow> unmatched tm p a \<Longrightarrow>
     jget (reconstructObject j p tm) a = Some (reconstructObject v (addrPath p a) tm)"
proof (induction a arbitrary: j p)
  case Nil
  then show ?case by simp
next
  case (Cons s a)
  from Cons.prems(1) obtain w where w: "jget j [s] = Some w" "jget w a = Some v"
    using jget_append [of j "[s]" a] by (auto split: option.splits)
  have none: "tm (stepPath p s) = None" and rest: "unmatched tm (stepPath p s) a"
    using Cons.prems(2) by simp_all
  have "jget (reconstructObject j p tm) [s] = Some (reconstructObject w (stepPath p s) tm)"
    using jget_reconstruct_step [OF w(1), of p tm] none by simp
  then have "jget (reconstructObject j p tm) (s # a) = jget (reconstructObject w (stepPath p s) tm) a"
    using jget_append [of "reconstructObject j p tm" "[s]" a] by simp
  then show ?case
    using Cons.IH [OF w(2) rest] by simp
qed

lemma jget_reconstruct_matched:
  assumes "jget j (a @ [s]) = Some v" "unmatched tm p a" "tm (addrPath p (a @ [s])) = Some t"
  shows "jget (reconstructObject j p tm) (a @ [s]) = Some (JStr t)"
proof -
  obtain w where w: "jget j a = Some w" "jget w [s] = Some v"
    using assms(1) by (auto simp: jget_append split: option.splits)
  have up: "jget (reconstructObject j p tm) a = Some (reconstructObject w (addrPath p a) tm)"
    by (rule jget_reconstruct_unmatched [OF w(1) assms(2)])
  have hit: "tm (stepPath (addrPath p a) s) = Some t"
    using assms(3) by (simp add: addrPath_append)
  show ?thesis
    using up jget_reconstruct_step [OF w(2), of "addrPath p a" tm] hit
    by (simp add: jget_append)
qed

lemma sameShape_leaf: "isLeaf v \<Longrightarrow> sameShape v (JStr t)"
  by (cases v) (auto simp: isLeaf_def)

lemma reconstructObject_shape:
  "\<forall>(q, v) \<in> set (positions j p). tm q \<noteq> None \<longrightarrow> isLeaf v
     \<Longrightarrow> sameShape j (reconstructObject j p tm)"
  "\<forall>(q, v) \<in> set (positionsItems xs i p). tm q \<noteq> None \<longrightarrow> isLeaf v
     \<Longrightarrow> sameShapeItems xs (reconstructItems xs i p tm)"
  "\<forall>(q, v) \<in> set (positionsKeys kvs p). tm q \<noteq> None \<longrightarrow> isLeaf v
     \<Longrightarrow> sameShapeKeys kvs (reconstructKeys kvs p tm)"
  by (induction j p tm and xs i p tm and kvs p tm
      rule: reconstructObject_reconstructItems_reconstructKeys.induct)
     (auto simp: isLeaf_def sameShape_leaf split: option.splits)

lemma pathTranslationMap_unique:
  assumes "f \<in> set translations" "\<forall>g \<in> set translations. path g = path f \<longrightarrow> g = f"
  shows "pathTranslationMap translations (path f) = Some (translationOrOriginal f)"
proof (cases "pathTranslationMap translations (path f)")
  case None
  then show ?thesis
    using assms(1) by (simp add: pathTranslationMap_None)
next
  case (Some t)
  then show ?thesis
    using pathTranslationMap_Some [OF Some] assms(2) by auto
qed

subsection \<open>Values that agree off the translation map\<close>

text \<open>
  \<open>agreesOff tm p j j'\<close>: every leaf of \<open>j\<close> that is reached without passing a position whose
  path is in the map (paths computed from \<open>p\<close>, the path of \<open>j\<close>) is at the same place in
  \<open>j'\<close>, with the same value.
\<close>

definition agreesOff :: "(string \<rightharpoonup> string) \<Rightarrow> string \<Rightarrow> json \<Rightarrow> json \<Rightarrow> bool" where
  "agreesOff tm p j j' =
     (\<forall>a v. jget j a = Some v \<and> isLeaf v \<and> unmatched tm p a \<longrightarrow> jget j' a = Some v)"

lemma agreesOff_refl: "agreesOff tm p j j"
  by (simp add: agreesOff_def)

lemma agreesOff_trans: "agreesOff tm p j j' \<Longrightarrow> agreesOff tm p j' j'' \<Longrightarrow> agreesOff tm p j j''"
  by (auto simp: agreesOff_def)

lemma map_of_assign: "map_of (assign kvs k v) k' = (if k' = k then Some v else map_of kvs k')"
  by (induction kvs) auto

lemma assign_same: "map_of kvs k = Some v \<Longrightarrow> assign kvs k v = kvs"
  by (induction kvs) (auto split: if_splits)

lemma keys_assign: "map_of kvs k = Some w \<Longrightarrow> map fst (assign kvs k v) = map fst kvs"
  by (induction kvs) (auto split: if_splits)

lemma agreesOff_assign:
  assumes "tm (keyPath p k) \<noteq> None \<or> (\<exists>v. map_of kvs k = Some v \<and> agreesOff tm (keyPath p k) v v')"
  shows "agreesOff tm p (JObj kvs) (JObj (assign kvs k v'))"
  unfolding agreesOff_def
proof (intro allI impI, elim conjE)
  fix a w
  assume get: "jget (JObj kvs) a = Some w" and leaf: "isLeaf w" and un: "unmatched tm p a"
  show "jget (JObj (assign kvs k v')) a = Some w"
  proof (cases a)
    case Nil
    then show ?thesis using get leaf by (auto simp: isLeaf_def)
  next
    case (Cons s a')
    then obtain k' where s: "s = Key k'"
      using get by (cases s) auto
    show ?thesis
    proof (cases "k' = k")
      case False
      then show ?thesis using get Cons s by (simp add: map_of_assign)
    next
      case True
      then have none: "tm (keyPath p k) = None" and un': "unmatched tm (keyPath p k) a'"
        using un Cons s by simp_all
      then obtain v where v: "map_of kvs k = Some v" "agreesOff tm (keyPath p k) v v'"
        using assms by auto
      have "jget v a' = Some w"
        using get Cons s True v(1) by simp
      then have "jget v' a' = Some w"
        using v(2) leaf un' by (auto simp: agreesOff_def)
      then show ?thesis
        using Cons s True by (simp add: map_of_assign)
    qed
  qed
qed

lemma agreesOff_items:
  assumes "length ys = length xs"
    and "\<forall>n < length xs. tm (itemPath p n) \<noteq> None \<or> agreesOff tm (itemPath p n) (xs ! n) (ys ! n)"
  shows "agreesOff tm p (JArr xs) (JArr ys)"
  unfolding agreesOff_def
proof (intro allI impI, elim conjE)
  fix a w
  assume get: "jget (JArr xs) a = Some w" and leaf: "isLeaf w" and un: "unmatched tm p a"
  show "jget (JArr ys) a = Some w"
  proof (cases a)
    case Nil
    then show ?thesis using get leaf by (auto simp: isLeaf_def)
  next
    case (Cons s a')
    then obtain n where s: "s = Idx n" "n < length xs" "jget (xs ! n) a' = Some w"
      using get by (cases s) (auto split: if_splits)
    have none: "tm (itemPath p n) = None" and un': "unmatched tm (itemPath p n) a'"
      using un Cons s by simp_all
    then have "agreesOff tm (itemPath p n) (xs ! n) (ys ! n)"
      using assms(2) s(2) by auto
    then have "jget (ys ! n) a' = Some w"
      using s(3) leaf un' by (auto simp: agreesOff_def)
    then show ?thesis
      using Cons s assms(1) by simp
  qed
qed

lemma agreesOff_members:
  assumes "\<forall>k v. map_of kvs k = Some v \<longrightarrow>
             tm (keyPath p k) \<noteq> None \<or> (\<exists>v'. map_of kws k = Some v' \<and> agreesOff tm (keyPath p k) v v')"
  shows "agreesOff tm p (JObj kvs) (JObj kws)"
  unfolding agreesOff_def
proof (intro allI impI, elim conjE)
  fix a w
  assume get: "jget (JObj kvs) a = Some w" and leaf: "isLeaf w" and un: "unmatched tm p a"
  show "jget (JObj kws) a = Some w"
  proof (cases a)
    case Nil
    then show ?thesis using get leaf by (auto simp: isLeaf_def)
  next
    case (Cons s a')
    then obtain k v where s: "s = Key k" "map_of kvs k = Some v" "jget v a' = Some w"
      using get by (cases s) (auto split: option.splits)
    have none: "tm (keyPath p k) = None" and un': "unmatched tm (keyPath p k) a'"
      using un Cons s by simp_all
    then obtain v' where v': "map_of kws k = Some v'" "agreesOff tm (keyPath p k) v v'"
      using assms s(2) by blast
    then have "jget v' a' = Some w"
      using s(3) leaf un' by (auto simp: agreesOff_def)
    then show ?thesis
      using Cons s v'(1) by simp
  qed
qed

lemma agreesOff_leaf_replaced: "isLeaf v \<Longrightarrow> tm p \<noteq> None \<or> v' = v \<Longrightarrow> agreesOff tm p v v' \<or> tm p \<noteq> None"
  by (auto simp: agreesOff_refl)

subsection \<open>Rebuilding an Editor.js block\<close>

definition agreesOffU :: "(string \<rightharpoonup> string) \<Rightarrow> string \<Rightarrow> json option \<Rightarrow> json option \<Rightarrow> bool" where
  "agreesOffU tm p d d' =
     (case d of None \<Rightarrow> d' = None
      | Some x \<Rightarrow> (case d' of None \<Rightarrow> False | Some y \<Rightarrow> agreesOff tm p x y))"

lemma agreesOffU_refl: "agreesOffU tm p d d"
  by (simp add: agreesOffU_def agreesOff_refl split: option.splits)

lemma agreesOffU_trans: "agreesOffU tm p d d' \<Longrightarrow> agreesOffU tm p d' d'' \<Longrightarrow> agreesOffU tm p d d''"
  by (auto simp: agreesOffU_def split: option.splits intro: agreesOff_trans)

lemma keyPath_nonempty: "p \<noteq> [] \<Longrightarrow> keyPath p k = p @ ''.'' @ k"
  by (simp add: keyPath_def)

lemma blockPathOf_nonempty: "blockPathOf i \<noteq> []"
  by (simp add: blockPathOf_def)

lemma setProp_agrees:
  assumes "setProp data key v = Inr d'" "tm (keyPath dp key) \<noteq> None \<or>
             (\<exists>w. getPropU data key = Inr (Some w) \<and> agreesOff tm (keyPath dp key) w v)"
  shows "agreesOffU tm dp data (Some d')"
proof (cases data)
  case None
  then show ?thesis using assms(1) by simp
next
  case (Some d)
  show ?thesis
  proof (cases d)
    case (JObj kvs)
    then have d': "d' = JObj (assign kvs key v)"
      using assms(1) Some by simp
    have "agreesOff tm dp (JObj kvs) (JObj (assign kvs key v))"
      using assms(2) Some JObj by (intro agreesOff_assign) (auto simp: getPropU_def)
    then show ?thesis
      using Some JObj d' by (simp add: agreesOffU_def)
  next
    case (JArr xs)
    then show ?thesis
      using assms(1) Some by (auto simp: agreesOffU_def agreesOff_refl)
  qed (use assms(1) Some in auto)
qed

lemma updateTextPath_agrees:
  assumes "updateTextPath data key p tm = Inr data'" "p = keyPath dp key"
  shows "agreesOffU tm dp data data'"
proof (cases "tm p")
  case None
  then show ?thesis
    using assms(1) by (simp add: updateTextPath_def agreesOffU_refl)
next
  case (Some t)
  then obtain d' where d': "setProp data key (JStr t) = Inr d'" "data' = Some d'"
    using assms(1) by (auto simp: updateTextPath_def bindE_def split: sum.splits)
  show ?thesis
    using setProp_agrees [OF d'(1), of tm dp] Some assms(2) d'(2) by simp
qed

lemma reconstructListItems_length: "length (reconstructListItems xs i bp tm) = length xs"
  by (induction xs arbitrary: i) auto

lemma reconstructListItems_nth:
  "n < length xs \<Longrightarrow>
     reconstructListItems xs i bp tm ! n
       = getOr tm (bp @ ''.data.items['' @ showNat (i + n) @ '']'') (xs ! n)"
proof (induction xs arbitrary: i n)
  case Nil
  then show ?case by simp
next
  case (Cons x xs)
  then show ?case by (cases n) auto
qed

lemma getOr_agrees: "tm p \<noteq> None \<or> agreesOff tm p v (getOr tm p v)"
  by (cases "tm p") (auto simp: getOr_def agreesOff_refl)

lemma getIfHas_agrees: "tm p \<noteq> None \<or> agreesOff tm p v (getIfHas tm p v)"
  by (cases "tm p") (auto simp: getIfHas_def agreesOff_refl)

lemma reconstructListItems_agrees:
  assumes "p = bp @ ''.data.items''"
  shows "agreesOff tm p (JArr xs) (JArr (reconstructListItems xs 0 bp tm))"
proof (rule agreesOff_items)
  show "length (reconstructListItems xs 0 bp tm) = length xs"
    by (rule reconstructListItems_length)
  show "\<forall>n < length xs. tm (itemPath p n) \<noteq> None
          \<or> agreesOff tm (itemPath p n) (xs ! n) (reconstructListItems xs 0 bp tm ! n)"
    using getOr_agrees [of tm] by (simp add: reconstructListItems_nth itemPath_def assms)
qed

lemma reconstructCells_length: "length (reconstructCells cells r c bp tm) = length cells"
  by (induction cells arbitrary: c) auto

lemma reconstructCells_nth:
  "n < length cells \<Longrightarrow>
     reconstructCells cells r c bp tm ! n
       = getOr tm (bp @ ''.data.content['' @ showNat r @ '']['' @ showNat (c + n) @ '']'') (cells ! n)"
proof (induction cells arbitrary: c n)
  case Nil
  then show ?case by simp
next
  case (Cons x xs)
  then show ?case by (cases n) auto
qed

lemma reconstructCells_agrees:
  assumes "p = bp @ ''.data.content['' @ showNat r @ '']''"
  shows "agreesOff tm p (JArr cells) (JArr (reconstructCells cells r 0 bp tm))"
proof (rule agreesOff_items)
  show "length (reconstructCells cells r 0 bp tm) = length cells"
    by (rule reconstructCells_length)
  show "\<forall>n < length cells. tm (itemPath p n) \<noteq> None
          \<or> agreesOff tm (itemPath p n) (cells ! n) (reconstructCells cells r 0 bp tm ! n)"
    using getOr_agrees [of tm] by (simp add: reconstructCells_nth itemPath_def assms)
qed

lemma reconstructRows_agrees:
  assumes "reconstructRows rows r bp tm = Inr rows'"
  shows "length rows' = length rows
       \<and> (\<forall>n < length rows.
             agreesOff tm (bp @ ''.data.content['' @ showNat (r + n) @ '']'') (rows ! n) (rows' ! n))"
  using assms
proof (induction rows arbitrary: r rows')
  case Nil
  then show ?case by simp
next
  case (Cons row rows)
  then obtain cells rs where c: "row = JArr cells" "reconstructRows rows (Suc r) bp tm = Inr rs"
    "rows' = JArr (reconstructCells cells r 0 bp tm) # rs"
    by (auto simp: bindE_def split: json.splits sum.splits)
  have ih: "length rs = length rows
       \<and> (\<forall>n < length rows.
             agreesOff tm (bp @ ''.data.content['' @ showNat (Suc r + n) @ '']'') (rows ! n) (rs ! n))"
    by (rule Cons.IH [OF c(2)])
  have hd: "agreesOff tm (bp @ ''.data.content['' @ showNat r @ '']'') row
              (JArr (reconstructCells cells r 0 bp tm))"
    using c(1) reconstructCells_agrees by simp
  show ?case
  proof (intro conjI allI impI)
    show "length rows' = length (row # rows)"
      using ih c(3) by simp
  next
    fix n assume "n < length (row # rows)"
    then show "agreesOff tm (bp @ ''.data.content['' @ showNat (r + n) @ '']'') ((row # rows) ! n) (rows' ! n)"
      using ih hd c(3) by (cases n) auto
  qed
qed

lemma reconstructChecklist_agrees:
  assumes "reconstructChecklist items i bp tm = Inr items'"
  shows "length items' = length items
       \<and> (\<forall>n < length items.
             agreesOff tm (bp @ ''.data.items['' @ showNat (i + n) @ '']'') (items ! n) (items' ! n))"
  using assms
proof (induction items arbitrary: i items')
  case Nil
  then show ?case by simp
next
  case (Cons item items)
  let ?p = "bp @ ''.data.items['' @ showNat i @ '']''"
  obtain item' rest where c:
    "(case tm (?p @ ''.text'') of None \<Rightarrow> Inr item | Some t \<Rightarrow> setProp (Some item) ''text'' (JStr t)) = Inr item'"
    "reconstructChecklist items (Suc i) bp tm = Inr rest" "items' = item' # rest"
    using Cons.prems by (auto simp: bindE_def split: sum.splits)
  have ih: "length rest = length items
       \<and> (\<forall>n < length items.
             agreesOff tm (bp @ ''.data.items['' @ showNat (Suc i + n) @ '']'') (items ! n) (rest ! n))"
    by (rule Cons.IH [OF c(2)])
  have hd: "agreesOff tm ?p item item'"
  proof (cases "tm (?p @ ''.text'')")
    case None
    then show ?thesis using c(1) by (simp add: agreesOff_refl)
  next
    case (Some t)
    then have set: "setProp (Some item) ''text'' (JStr t) = Inr item'"
      using c(1) by simp
    have hit: "tm (keyPath ?p ''text'') \<noteq> None"
      using Some by (simp add: keyPath_def)
    have "agreesOffU tm ?p (Some item) (Some item')"
      using setProp_agrees [OF set, of tm ?p] hit by blast
    then show ?thesis by (simp add: agreesOffU_def)
  qed
  show ?case
  proof (intro conjI allI impI)
    show "length items' = length (item # items)"
      using ih c(3) by simp
  next
    fix n assume "n < length (item # items)"
    then show "agreesOff tm (bp @ ''.data.items['' @ showNat (i + n) @ '']'') ((item # items) ! n) (items' ! n)"
      using ih hd c(3) by (cases n) auto
  qed
qed

lemma reconstructGenericItems_length: "length (reconstructGenericItems xs i cp tm) = length xs"
  by (induction xs arbitrary: i) auto

lemma reconstructGenericItems_nth:
  "n < length xs \<Longrightarrow>
     reconstructGenericItems xs i cp tm ! n = getIfHas tm (cp @ ''['' @ showNat (i + n) @ '']'') (xs ! n)"
proof (induction xs arbitrary: i n)
  case Nil
  then show ?case by simp
next
  case (Cons x xs)
  then show ?case by (cases n) auto
qed

lemma reconstructGenericValue_agrees:
  assumes "p = bp @ ''.data.'' @ key"
  shows "tm p \<noteq> None \<or> agreesOff tm p v (reconstructGenericValue key v bp tm)"
proof (cases v)
  case (JStr s)
  then show ?thesis
    using getIfHas_agrees [of tm p v] assms by (simp add: reconstructGenericValue_def)
next
  case (JArr items)
  have "agreesOff tm p (JArr items) (JArr (reconstructGenericItems items 0 p tm))"
  proof (rule agreesOff_items)
    show "length (reconstructGenericItems items 0 p tm) = length items"
      by (rule reconstructGenericItems_length)
    show "\<forall>n < length items. tm (itemPath p n) \<noteq> None
            \<or> agreesOff tm (itemPath p n) (items ! n) (reconstructGenericItems items 0 p tm ! n)"
      using getIfHas_agrees [of tm] by (simp add: reconstructGenericItems_nth itemPath_def)
  qed
  then show ?thesis
    using JArr assms by (simp add: reconstructGenericValue_def)
qed (simp_all add: reconstructGenericValue_def agreesOff_refl)

lemma reconstructGenericTextFields_agrees:
  assumes "\<not> isArray data" "bp \<noteq> []"
  shows "agreesOffU tm (bp @ ''.data'') data (reconstructGenericTextFields data bp tm)"
proof (cases data)
  case None
  then show ?thesis by (simp add: reconstructGenericTextFields_def agreesOffU_def)
next
  case (Some d)
  show ?thesis
  proof (cases d)
    case (JObj kvs)
    let ?kws = "map (\<lambda>(key, v). (key, reconstructGenericValue key v bp tm)) kvs"
    have look: "map_of ?kws k = map_option (\<lambda>v. reconstructGenericValue k v bp tm) (map_of kvs k)" for k
      by (induction kvs) auto
    have "agreesOff tm (bp @ ''.data'') (JObj kvs) (JObj ?kws)"
    proof (rule agreesOff_members, intro allI impI)
      fix k v assume kv: "map_of kvs k = Some v"
      have p: "keyPath (bp @ ''.data'') k = bp @ ''.data.'' @ k"
        by (simp add: keyPath_def)
      show "tm (keyPath (bp @ ''.data'') k) \<noteq> None
              \<or> (\<exists>v'. map_of ?kws k = Some v' \<and> agreesOff tm (keyPath (bp @ ''.data'') k) v v')"
        using reconstructGenericValue_agrees [OF p, of tm v] kv look [of k] by auto
    qed
    then show ?thesis
      using Some JObj by (simp add: reconstructGenericTextFields_def agreesOffU_def)
  next
    case (JArr xs)
    then show ?thesis using assms(1) Some by (simp add: isArray_def)
  qed (use Some in \<open>simp_all add: reconstructGenericTextFields_def agreesOffU_def agreesOff_refl\<close>)
qed

lemma agreesOffU_defined: "agreesOffU tm p d d' \<Longrightarrow> (d' = None) = (d = None)"
  by (auto simp: agreesOffU_def split: option.splits)

lemma reconstructData_agrees:
  assumes "reconstructData ty dat bp tm = Inr dat'" "bp \<noteq> []" "\<not> isArray dat"
  shows "agreesOffU tm (bp @ ''.data'') dat dat'"
proof -
  let ?dp = "bp @ ''.data''"
  have kp: "keyPath ?dp k = bp @ ''.data.'' @ k" for k
    by (simp add: keyPath_def)
  consider (para) "ty = Some (JStr ''paragraph'') \<or> ty = Some (JStr ''header'')"
    | (list) "ty = Some (JStr ''list'')"
    | (quote) "ty = Some (JStr ''quote'')"
    | (image) "ty = Some (JStr ''image'') \<or> ty = Some (JStr ''embed'')"
    | (table) "ty = Some (JStr ''table'')"
    | (checklist) "ty = Some (JStr ''checklist'')"
    | (warning) "ty = Some (JStr ''warning'') \<or> ty = Some (JStr ''alert'')"
    | (other) "ty \<noteq> Some (JStr ''paragraph'')" "ty \<noteq> Some (JStr ''header'')"
        "ty \<noteq> Some (JStr ''list'')" "ty \<noteq> Some (JStr ''quote'')" "ty \<noteq> Some (JStr ''image'')"
        "ty \<noteq> Some (JStr ''embed'')" "ty \<noteq> Some (JStr ''table'')" "ty \<noteq> Some (JStr ''checklist'')"
        "ty \<noteq> Some (JStr ''warning'')" "ty \<noteq> Some (JStr ''alert'')"
    by blast
  then show ?thesis
  proof cases
    case para
    then have "updateTextPath dat ''text'' (bp @ ''.data.text'') tm = Inr dat'"
      using assms(1) by (auto simp: reconstructData_def)
    then show ?thesis
      by (rule updateTextPath_agrees) (simp add: kp)
  next
    case list
    then have run: "bindE (getPropU dat ''items'') (\<lambda>items.
          if truthyU items then
            (case items of
               Some (JArr xs) \<Rightarrow>
                 bindE (setProp dat ''items'' (JArr (reconstructListItems xs 0 bp tm)))
                   (\<lambda>d. Inr (Some d))
             | _ \<Rightarrow> Inl TypeError)
          else Inr dat) = Inr dat'"
      using assms(1) by (simp add: reconstructData_def)
    then obtain items where items: "getPropU dat ''items'' = Inr items"
      by (auto simp: bindE_def split: sum.splits)
    show ?thesis
    proof (cases "truthyU items")
      case False
      then show ?thesis using run items by (simp add: bindE_def agreesOffU_refl)
    next
      case True
      then obtain xs d where x: "items = Some (JArr xs)"
        "setProp dat ''items'' (JArr (reconstructListItems xs 0 bp tm)) = Inr d" "dat' = Some d"
        using run items
        by (auto simp: bindE_def split: sum.splits option.splits json.splits)
      have "agreesOff tm (keyPath ?dp ''items'') (JArr xs) (JArr (reconstructListItems xs 0 bp tm))"
        by (rule reconstructListItems_agrees) (simp add: kp)
      then show ?thesis
        using setProp_agrees [OF x(2), of tm ?dp] items x(1,3) by blast
    qed
  next
    case quote
    then obtain d where d: "updateTextPath dat ''text'' (bp @ ''.data.text'') tm = Inr d"
      "updateTextPath d ''caption'' (bp @ ''.data.caption'') tm = Inr dat'"
      using assms(1) by (auto simp: reconstructData_def bindE_def split: sum.splits)
    have "agreesOffU tm ?dp dat d"
      by (rule updateTextPath_agrees [OF d(1)]) (simp add: kp)
    moreover have "agreesOffU tm ?dp d dat'"
      by (rule updateTextPath_agrees [OF d(2)]) (simp add: kp)
    ultimately show ?thesis
      by (rule agreesOffU_trans)
  next
    case image
    then have "updateTextPath dat ''caption'' (bp @ ''.data.caption'') tm = Inr dat'"
      using assms(1) by (auto simp: reconstructData_def)
    then show ?thesis
      by (rule updateTextPath_agrees) (simp add: kp)
  next
    case table
    then have run: "bindE (getPropU dat ''content'') (\<lambda>content.
          if truthyU content then
            (case content of
               Some (JArr rows) \<Rightarrow>
                 bindE (reconstructRows rows 0 bp tm) (\<lambda>rows'.
                 bindE (setProp dat ''content'' (JArr rows')) (\<lambda>d. Inr (Some d)))
             | _ \<Rightarrow> Inl TypeError)
          else Inr dat) = Inr dat'"
      using assms(1) by (simp add: reconstructData_def)
    then obtain content where content: "getPropU dat ''content'' = Inr content"
      by (auto simp: bindE_def split: sum.splits)
    show ?thesis
    proof (cases "truthyU content")
      case False
      then show ?thesis using run content by (simp add: bindE_def agreesOffU_refl)
    next
      case True
      then obtain rows rows' d where x: "content = Some (JArr rows)"
        "reconstructRows rows 0 bp tm = Inr rows'"
        "setProp dat ''content'' (JArr rows') = Inr d" "dat' = Some d"
        using run content
        by (auto simp: bindE_def split: sum.splits option.splits json.splits)
      have rows: "length rows' = length rows"
        "\<forall>n < length rows.
           agreesOff tm (bp @ ''.data.content['' @ showNat n @ '']'') (rows ! n) (rows' ! n)"
        using reconstructRows_agrees [OF x(2)] by simp_all
      have "agreesOff tm (keyPath ?dp ''content'') (JArr rows) (JArr rows')"
        using rows by (intro agreesOff_items) (simp_all add: kp itemPath_def)
      then show ?thesis
        using setProp_agrees [OF x(3), of tm ?dp] content x(1,4) by blast
    qed
  next
    case checklist
    then have run: "bindE (getPropU dat ''items'') (\<lambda>items.
          if truthyU items then
            (case items of
               Some (JArr xs) \<Rightarrow>
                 bindE (reconstructChecklist xs 0 bp tm) (\<lambda>xs'.
                 bindE (setProp dat ''items'' (JArr xs')) (\<lambda>d. Inr (Some d)))
             | _ \<Rightarrow> Inl TypeError)
          else Inr dat) = Inr dat'"
      using assms(1) by (simp add: reconstructData_def)
    then obtain items where items: "getPropU dat ''items'' = Inr items"
      by (auto simp: bindE_def split: sum.splits)
    show ?thesis
    proof (cases "truthyU items")
      case False
      then show ?thesis using run items by (simp add: bindE_def agreesOffU_refl)
    next
      case True
      then obtain xs xs' d where x: "items = Some (JArr xs)"
        "reconstructChecklist xs 0 bp tm = Inr xs'"
        "setProp dat ''items'' (JArr xs') = Inr d" "dat' = Some d"
        using run items
        by (auto simp: bindE_def split: sum.splits option.splits json.splits)
      have its: "length xs' = length xs"
        "\<forall>n < length xs.
           agreesOff tm (bp @ ''.data.items['' @ showNat n @ '']'') (xs ! n) (xs' ! n)"
        using reconstructChecklist_agrees [OF x(2)] by simp_all
      have "agreesOff tm (keyPath ?dp ''items'') (JArr xs) (JArr xs')"
        using its by (intro agreesOff_items) (simp_all add: kp itemPath_def)
      then show ?thesis
        using setProp_agrees [OF x(3), of tm ?dp] items x(1,4) by blast
    qed
  next
    case warning
    then obtain d where d: "updateTextPath dat ''title'' (bp @ ''.data.title'') tm = Inr d"
      "updateTextPath d ''message'' (bp @ ''.data.message'') tm = Inr dat'"
      using assms(1) by (auto simp: reconstructData_def bindE_def split: sum.splits)
    have "agreesOffU tm ?dp dat d"
      by (rule updateTextPath_agrees [OF d(1)]) (simp add: kp)
    moreover have "agreesOffU tm ?dp d dat'"
      by (rule updateTextPath_agrees [OF d(2)]) (simp add: kp)
    ultimately show ?thesis
      by (rule agreesOffU_trans)
  next
    case other
    then have "dat' = reconstructGenericTextFields dat bp tm"
      using assms(1) by (simp add: reconstructData_def)
    then show ?thesis
      using reconstructGenericTextFields_agrees [OF assms(3,2), of tm] by simp
  qed
qed

text \<open>\<open>block.data\<close>, for any value \<open>block\<close> but \<open>null\<close>.\<close>

definition dataOf :: "json \<Rightarrow> json option" where
  "dataOf block = (case getProp block ''data'' of Inl e \<Rightarrow> None | Inr d \<Rightarrow> d)"

lemma reconstructBlock_agrees:
  assumes "reconstructBlock b i tm = Inr b'" "\<not> isArray (dataOf b)"
  shows "agreesOff tm (blockPathOf i) b b'
       \<and> map fst (ownEntries b') = map fst (ownEntries b)
       \<and> (\<forall>k. k \<noteq> ''data'' \<longrightarrow> getProp b' k = getProp b k)"
proof (cases b)
  case (JObj kvs)
  then obtain dat' where d: "reconstructData (map_of kvs ''type'') (map_of kvs ''data'') (blockPathOf i) tm = Inr dat'"
    "b' = withData kvs dat'"
    using assms(1) by (auto simp: reconstructBlock_def bindE_def split: sum.splits)
  have na: "\<not> isArray (map_of kvs ''data'')"
    using assms(2) JObj by (simp add: dataOf_def)
  have ag: "agreesOffU tm (blockPathOf i @ ''.data'') (map_of kvs ''data'') dat'"
    by (rule reconstructData_agrees [OF d(1) blockPathOf_nonempty na])
  show ?thesis
  proof (cases dat')
    case None
    then show ?thesis
      using d(2) JObj by (simp add: withData_def agreesOff_refl)
  next
    case (Some d')
    then obtain d0 where d0: "map_of kvs ''data'' = Some d0" "agreesOff tm (blockPathOf i @ ''.data'') d0 d'"
      using ag by (auto simp: agreesOffU_def split: option.splits)
    have kp: "keyPath (blockPathOf i) ''data'' = blockPathOf i @ ''.data''"
      by (simp add: keyPath_def blockPathOf_def)
    have "agreesOff tm (blockPathOf i) (JObj kvs) (JObj (assign kvs ''data'' d'))"
      using d0 kp by (intro agreesOff_assign) auto
    then show ?thesis
      using d(2) JObj Some d0(1) by (simp add: withData_def keys_assign map_of_assign)
  qed
qed (use assms(1) in \<open>auto simp: reconstructBlock_def bindE_def agreesOff_refl split: sum.splits\<close>)

lemma reconstructBlocks_agrees:
  assumes "reconstructBlocks bs i tm = Inr bs'" "\<forall>b \<in> set bs. \<not> isArray (dataOf b)"
  shows "length bs' = length bs
       \<and> (\<forall>n < length bs.
             agreesOff tm (blockPathOf (i + n)) (bs ! n) (bs' ! n)
             \<and> map fst (ownEntries (bs' ! n)) = map fst (ownEntries (bs ! n))
             \<and> (\<forall>k. k \<noteq> ''data'' \<longrightarrow> getProp (bs' ! n) k = getProp (bs ! n) k))"
  using assms
proof (induction bs arbitrary: i bs')
  case Nil
  then show ?case by simp
next
  case (Cons b bs)
  then obtain b' rest where c: "reconstructBlock b i tm = Inr b'"
    "reconstructBlocks bs (Suc i) tm = Inr rest" "bs' = b' # rest"
    by (auto simp: bindE_def split: sum.splits)
  have hd: "agreesOff tm (blockPathOf i) b b'
       \<and> map fst (ownEntries b') = map fst (ownEntries b)
       \<and> (\<forall>k. k \<noteq> ''data'' \<longrightarrow> getProp b' k = getProp b k)"
    using reconstructBlock_agrees [OF c(1)] Cons.prems(2) by simp
  have ih: "length rest = length bs
       \<and> (\<forall>n < length bs.
             agreesOff tm (blockPathOf (Suc i + n)) (bs ! n) (rest ! n)
             \<and> map fst (ownEntries (rest ! n)) = map fst (ownEntries (bs ! n))
             \<and> (\<forall>k. k \<noteq> ''data'' \<longrightarrow> getProp (rest ! n) k = getProp (bs ! n) k))"
    using Cons.IH [OF c(2)] Cons.prems(2) by simp
  show ?case
  proof (intro conjI allI impI)
    show "length bs' = length (b # bs)"
      using ih c(3) by simp
  next
    fix n assume n: "n < length (b # bs)"
    show "agreesOff tm (blockPathOf (i + n)) ((b # bs) ! n) (bs' ! n)"
      using n ih hd c(3) by (cases n) auto
    show "map fst (ownEntries (bs' ! n)) = map fst (ownEntries ((b # bs) ! n))"
      using n ih hd c(3) by (cases n) auto
    fix k assume "k \<noteq> ''data''"
    then show "getProp (bs' ! n) k = getProp ((b # bs) ! n) k"
      using n ih hd c(3) by (cases n) auto
  qed
qed

text \<open>The blocks of a document, for any value.\<close>

definition blocksOf :: "json \<Rightarrow> json list" where
  "blocksOf editorData =
     (case getProp editorData ''blocks'' of Inr (Some (JArr bs)) \<Rightarrow> bs | _ \<Rightarrow> [])"

lemma reconstructBlocks_nth:
  "reconstructBlocks bs i tm = Inr bs' \<Longrightarrow> n < length bs \<Longrightarrow>
     reconstructBlock (bs ! n) (i + n) tm = Inr (bs' ! n)"
proof (induction bs arbitrary: i bs' n)
  case Nil
  then show ?case by simp
next
  case (Cons b bs)
  then obtain b' rest where c: "reconstructBlock b i tm = Inr b'"
    "reconstructBlocks bs (Suc i) tm = Inr rest" "bs' = b' # rest"
    by (auto simp: bindE_def split: sum.splits)
  show ?case
  proof (cases n)
    case 0
    then show ?thesis using c by simp
  next
    case (Suc m)
    then show ?thesis
      using Cons.IH [OF c(2), of m] Cons.prems(2) c(3) by simp
  qed
qed

lemma rebuildEditorJS_agrees:
  assumes "rebuildEditorJS j tm = Inr r" "\<forall>b \<in> set (blocksOf j). \<not> isArray (dataOf b)"
  shows "agreesOff tm [] j r
       \<and> map fst (ownEntries r) = map fst (ownEntries j)
       \<and> length (blocksOf r) = length (blocksOf j)
       \<and> (\<forall>n < length (blocksOf j).
             reconstructBlock (blocksOf j ! n) n tm = Inr (blocksOf r ! n))"
proof -
  obtain kvs bs bs' where j: "j = JObj kvs" "map_of kvs ''blocks'' = Some (JArr bs)"
    "reconstructBlocks bs 0 tm = Inr bs'" "r = JObj (assign kvs ''blocks'' (JArr bs'))"
    using assms(1)
    by (auto simp: rebuildEditorJS_def bindE_def split: json.splits option.splits sum.splits)
  have bo: "blocksOf j = bs" "blocksOf r = bs'"
    using j by (simp_all add: blocksOf_def map_of_assign)
  have blocks: "length bs' = length bs"
    "\<forall>n < length bs. agreesOff tm (blockPathOf (0 + n)) (bs ! n) (bs' ! n)"
    using reconstructBlocks_agrees [OF j(3)] assms(2) bo(1) by auto
  have arr: "agreesOff tm (keyPath [] ''blocks'') (JArr bs) (JArr bs')"
    using blocks by (intro agreesOff_items) (simp_all add: keyPath_def itemPath_def blockPathOf_def)
  have "agreesOff tm [] (JObj kvs) (JObj (assign kvs ''blocks'' (JArr bs')))"
    using arr j(2) by (intro agreesOff_assign) auto
  moreover have "\<forall>n < length bs. reconstructBlock (bs ! n) n tm = Inr (bs' ! n)"
    using reconstructBlocks_nth [OF j(3)] by simp
  ultimately show ?thesis
    using j bo blocks(1) by (simp add: keys_assign)
qed

text \<open>The fields that \<open>reconstructBlock\<close> hands to \<open>updateTextPath\<close>, by block type.\<close>

definition textFields :: "string \<Rightarrow> string list" where
  "textFields ty =
     (if ty = ''paragraph'' \<or> ty = ''header'' then [''text'']
      else if ty = ''quote'' then [''text'', ''caption'']
      else if ty = ''image'' \<or> ty = ''embed'' then [''caption'']
      else if ty = ''warning'' \<or> ty = ''alert'' then [''title'', ''message'']
      else [])"

lemma updateTextPath_object:
  "updateTextPath (Some (JObj dkvs)) key p tm =
     Inr (Some (JObj (case tm p of None \<Rightarrow> dkvs | Some t \<Rightarrow> assign dkvs key (JStr t))))"
  by (simp add: updateTextPath_def bindE_def split: option.splits)

lemma reconstructBlock_object:
  assumes "reconstructBlock (JObj kvs) i tm = Inr b'"
    and "reconstructData (map_of kvs ''type'') (map_of kvs ''data'') (blockPathOf i) tm = Inr (Some d)"
  shows "b' = JObj (assign kvs ''data'' d)"
  using assms by (simp add: reconstructBlock_def bindE_def withData_def)

lemma reconstructData_text_field:
  assumes "key \<in> set (textFields ty)" "tm (bp @ ''.data.'' @ key) = Some t"
  shows "\<exists>dkvs'. reconstructData (Some (JStr ty)) (Some (JObj dkvs)) bp tm = Inr (Some (JObj dkvs'))
           \<and> map_of dkvs' key = Some (JStr t)"
proof -
  consider (para) "ty = ''paragraph'' \<or> ty = ''header''" "key = ''text''"
    | (quote) "ty = ''quote''" "key = ''text'' \<or> key = ''caption''"
    | (image) "ty = ''image'' \<or> ty = ''embed''" "key = ''caption''"
    | (warning) "ty = ''warning'' \<or> ty = ''alert''" "key = ''title'' \<or> key = ''message''"
    using assms(1) by (auto simp: textFields_def split: if_splits)
  then show ?thesis
  proof cases
    case para
    have "reconstructData (Some (JStr ty)) (Some (JObj dkvs)) bp tm
            = Inr (Some (JObj (assign dkvs ''text'' (JStr t))))"
      using para assms(2) by (auto simp: reconstructData_def updateTextPath_object)
    then show ?thesis
      using para(2) by (simp add: map_of_assign)
  next
    case quote
    have "reconstructData (Some (JStr ty)) (Some (JObj dkvs)) bp tm
            = bindE (updateTextPath (Some (JObj dkvs)) ''text'' (bp @ ''.data.text'') tm) (\<lambda>d.
                updateTextPath d ''caption'' (bp @ ''.data.caption'') tm)"
      using quote(1) by (simp add: reconstructData_def)
    then show ?thesis
      using quote(2) assms(2)
      by (cases "tm (bp @ ''.data.text'')"; cases "tm (bp @ ''.data.caption'')")
        (auto simp: updateTextPath_object bindE_def map_of_assign)
  next
    case image
    have "reconstructData (Some (JStr ty)) (Some (JObj dkvs)) bp tm
            = Inr (Some (JObj (assign dkvs ''caption'' (JStr t))))"
      using image assms(2) by (auto simp: reconstructData_def updateTextPath_object)
    then show ?thesis
      using image(2) by (simp add: map_of_assign)
  next
    case warning
    have "reconstructData (Some (JStr ty)) (Some (JObj dkvs)) bp tm
            = bindE (updateTextPath (Some (JObj dkvs)) ''title'' (bp @ ''.data.title'') tm) (\<lambda>d.
                updateTextPath d ''message'' (bp @ ''.data.message'') tm)"
      using warning(1) by (auto simp: reconstructData_def)
    then show ?thesis
      using warning(2) assms(2)
      by (cases "tm (bp @ ''.data.title'')"; cases "tm (bp @ ''.data.message'')")
        (auto simp: updateTextPath_object bindE_def map_of_assign)
  qed
qed

lemma reconstructBlock_text_field:
  assumes "reconstructBlock (JObj kvs) i tm = Inr b'"
    and "map_of kvs ''type'' = Some (JStr ty)" "key \<in> set (textFields ty)"
    and "map_of kvs ''data'' = Some (JObj dkvs)"
    and "tm (blockPathOf i @ ''.data.'' @ key) = Some t"
  shows "jget b' [Key ''data'', Key key] = Some (JStr t)"
proof -
  obtain dkvs' where d:
    "reconstructData (Some (JStr ty)) (Some (JObj dkvs)) (blockPathOf i) tm = Inr (Some (JObj dkvs'))"
    "map_of dkvs' key = Some (JStr t)"
    using reconstructData_text_field [of key ty tm "blockPathOf i" t dkvs] assms(3,5) by blast
  have "b' = JObj (assign kvs ''data'' (JObj dkvs'))"
    using reconstructBlock_object [OF assms(1)] d(1) assms(2,4) by simp
  then show ?thesis
    using d(2) by (simp add: map_of_assign)
qed

lemma reconstructData_list:
  assumes "map_of dkvs ''items'' = Some (JArr xs)"
  shows "reconstructData (Some (JStr ''list'')) (Some (JObj dkvs)) bp tm
           = Inr (Some (JObj (assign dkvs ''items'' (JArr (reconstructListItems xs 0 bp tm)))))"
  using assms by (simp add: reconstructData_def bindE_def getPropU_def truthyU_def)

lemma reconstructBlock_list_item:
  assumes "reconstructBlock (JObj kvs) i tm = Inr b'"
    and "map_of kvs ''type'' = Some (JStr ''list'')"
    and "map_of kvs ''data'' = Some (JObj dkvs)" "map_of dkvs ''items'' = Some (JArr xs)"
    and "n < length xs"
  shows "jget b' [Key ''data'', Key ''items'', Idx n]
           = Some (getOr tm (blockPathOf i @ ''.data.items['' @ showNat n @ '']'') (xs ! n))"
proof -
  have "b' = JObj (assign kvs ''data'' (JObj (assign dkvs ''items''
               (JArr (reconstructListItems xs 0 (blockPathOf i) tm)))))"
    using reconstructBlock_object [OF assms(1)] reconstructData_list [OF assms(4)] assms(2,3)
    by simp
  then show ?thesis
    using assms(5)
    by (simp add: map_of_assign reconstructListItems_length reconstructListItems_nth)
qed

subsection \<open>Paths of Editor.js fragments\<close>

text \<open>The number that a string of decimal digits denotes.\<close>

definition decimalValue :: "char \<Rightarrow> nat" where
  "decimalValue c = of_char c - 48"

definition readNat :: "string \<Rightarrow> nat" where
  "readNat s = foldl (\<lambda>n c. 10 * n + decimalValue c) 0 s"

lemma decimalValue_digitChar: "d < 10 \<Longrightarrow> decimalValue (digitChar d) = d"
proof -
  have "\<forall>d \<in> set [0 ..< 10]. decimalValue (digitChar d) = d"
    by code_simp
  then show "d < 10 \<Longrightarrow> decimalValue (digitChar d) = d"
    by simp
qed

lemma digitChar_digit: "d < 10 \<Longrightarrow> digitChar d \<in> set digits"
proof -
  have "length digits = 10"
    by (simp add: digits_def)
  then show "d < 10 \<Longrightarrow> digitChar d \<in> set digits"
    using nth_mem [of d digits] by (simp add: digitChar_def)
qed

lemma readNat_snoc: "readNat (s @ [c]) = 10 * readNat s + decimalValue c"
  by (simp add: readNat_def)

lemma readNat_showNat: "readNat (showNat n) = n"
proof (induction n rule: showNat.induct)
  case (1 n)
  show ?case
  proof (cases "n < 10")
    case True
    then show ?thesis
      by (subst showNat.simps) (simp add: readNat_def decimalValue_digitChar)
  next
    case False
    then have "readNat (showNat (n div 10)) = n div 10"
      using 1 by simp
    then show ?thesis
      using False by (subst showNat.simps) (simp add: readNat_snoc decimalValue_digitChar)
  qed
qed

lemma showNat_inj:
  assumes "showNat m = showNat n"
  shows "m = n"
proof -
  have "readNat (showNat m) = readNat (showNat n)"
    by (simp only: assms)
  then show ?thesis
    by (simp only: readNat_showNat)
qed

lemma showNat_digits: "set (showNat n) \<subseteq> set digits"
proof (induction n rule: showNat.induct)
  case (1 n)
  show ?case
  proof (cases "n < 10")
    case True
    then show ?thesis
      by (subst showNat.simps) (simp add: digitChar_digit)
  next
    case False
    then have "set (showNat (n div 10)) \<subseteq> set digits"
      using 1 by simp
    then show ?thesis
      using False by (subst showNat.simps) (simp add: digitChar_digit)
  qed
qed

lemma digits_prefix_unique:
  assumes "xs @ c # r = ys @ c' # r'"
    and "set xs \<subseteq> set digits" "set ys \<subseteq> set digits" "c \<notin> set digits" "c' \<notin> set digits"
  shows "xs = ys \<and> r = r'"
proof -
  have "takeWhile (\<lambda>x. x \<in> set digits) (xs @ c # r) = xs"
    using assms(2,4) by (simp add: takeWhile_tail subset_iff)
  moreover have "takeWhile (\<lambda>x. x \<in> set digits) (ys @ c' # r') = ys"
    using assms(3,5) by (simp add: takeWhile_tail subset_iff)
  ultimately have "xs = ys"
    using assms(1) by simp
  then show ?thesis
    using assms(1) by simp
qed

lemma field_path_inj:
  assumes "blockPathOf i @ ''.data.'' @ key = blockPathOf i' @ ''.data.'' @ key'"
  shows "i = i' \<and> key = key'"
proof -
  have "showNat i @ CHR '']'' # (''.data.'' @ key) = showNat i' @ CHR '']'' # (''.data.'' @ key')"
    using assms by (simp add: blockPathOf_def)
  moreover have "CHR '']'' \<notin> set digits"
    by (simp add: digits_def)
  ultimately have "showNat i = showNat i' \<and> ''.data.'' @ key = ''.data.'' @ key'"
    using showNat_digits [of i] showNat_digits [of i'] by (intro digits_prefix_unique)
  then show ?thesis
    by (simp add: showNat_inj)
qed

subsection \<open>Editor.js documents without markup\<close>

text \<open>
  A block is plain when it is of one of the types with text fields, or a list, its \<open>data\<close>
  is an object, and each text that \<open>parse\<close> strips is a string that \<open>stripHtml\<close> leaves as
  it is: a text field is missing, falsy, or such a string (any string where \<open>parse\<close> stores
  the field without stripping it), the items of a list are such strings.
\<close>

definition strips :: "string \<Rightarrow> bool" where
  "strips ty = (ty = ''paragraph'' \<or> ty = ''header'' \<or> ty = ''quote'')"

definition plainField :: "string \<Rightarrow> json option \<Rightarrow> bool" where
  "plainField ty v =
     (case v of None \<Rightarrow> True
      | Some (JStr s) \<Rightarrow> \<not> strips ty \<or> stripHtml s = s
      | Some x \<Rightarrow> \<not> truthy x)"

definition plainItem :: "json \<Rightarrow> bool" where
  "plainItem x = (case x of JStr s \<Rightarrow> stripHtml s = s | _ \<Rightarrow> False)"

definition plainData :: "string \<Rightarrow> (string \<times> json) list \<Rightarrow> bool" where
  "plainData ty dkvs =
     (if ty = ''list''
      then (case map_of dkvs ''items'' of
              None \<Rightarrow> True
            | Some (JArr xs) \<Rightarrow>
                list_all plainItem xs
                \<and> (case listContext (map_of dkvs ''style'') of Inl e \<Rightarrow> False | Inr c \<Rightarrow> True)
            | Some x \<Rightarrow> \<not> truthy x)
      else textFields ty \<noteq> [] \<and> list_all (\<lambda>key. plainField ty (map_of dkvs key)) (textFields ty))"

definition plainBlock :: "json \<Rightarrow> bool" where
  "plainBlock block =
     (case block of
        JObj kvs \<Rightarrow>
          (case map_of kvs ''type'' of
             Some (JStr ty) \<Rightarrow>
               (case map_of kvs ''data'' of Some (JObj dkvs) \<Rightarrow> plainData ty dkvs | _ \<Rightarrow> False)
           | _ \<Rightarrow> False)
      | _ \<Rightarrow> False)"

definition plainDocument :: "json \<Rightarrow> bool" where
  "plainDocument editorData =
     (case editorData of
        JObj kvs \<Rightarrow> (case map_of kvs ''blocks'' of Some (JArr bs) \<Rightarrow> list_all plainBlock bs | _ \<Rightarrow> False)
      | _ \<Rightarrow> False)"

text \<open>The texts of a plain block that \<open>parse\<close> extracts, each with the end of its path.\<close>

definition fieldSlot :: "(string \<times> json) list \<Rightarrow> string \<Rightarrow> (string \<times> string) list" where
  "fieldSlot dkvs key =
     (case map_of dkvs key of Some (JStr s) \<Rightarrow> if s = [] then [] else [(key, s)] | _ \<Rightarrow> [])"

fun itemSlots :: "json list \<Rightarrow> nat \<Rightarrow> (string \<times> string) list" where
  "itemSlots [] k = []"
| "itemSlots (x # xs) k =
     (case x of JStr s \<Rightarrow> [(''items['' @ showNat k @ '']'', s)] | _ \<Rightarrow> []) @ itemSlots xs (Suc k)"

definition dataSlots :: "string \<Rightarrow> (string \<times> json) list \<Rightarrow> (string \<times> string) list" where
  "dataSlots ty dkvs =
     (if ty = ''list''
      then (case map_of dkvs ''items'' of Some (JArr xs) \<Rightarrow> itemSlots xs 0 | _ \<Rightarrow> [])
      else concat (map (fieldSlot dkvs) (textFields ty)))"

definition slotsOf :: "json \<Rightarrow> (string \<times> string) list" where
  "slotsOf block =
     (case block of
        JObj kvs \<Rightarrow>
          (case map_of kvs ''type'' of
             Some (JStr ty) \<Rightarrow>
               (case map_of kvs ''data'' of Some (JObj dkvs) \<Rightarrow> dataSlots ty dkvs | _ \<Rightarrow> [])
           | _ \<Rightarrow> [])
      | _ \<Rightarrow> [])"

definition slotOf :: "ExtractedText \<Rightarrow> string \<times> string" where
  "slotOf f = (path f, originalText f)"

definition slotPath :: "string \<Rightarrow> string \<times> string \<Rightarrow> string \<times> string" where
  "slotPath bp xs = (bp @ ''.data.'' @ fst xs, snd xs)"

lemma slotOf_mkFragment: "slotOf (mkFragment p s ctx ty) = (p, s)"
  by (simp add: slotOf_def mkFragment_def)

lemma slotPath_pair: "slotPath bp (x, s) = (bp @ ''.data.'' @ x, s)"
  by (simp add: slotPath_def)

lemma strippedField_plain:
  assumes "plainField ty (map_of dkvs key)" "strips ty"
  shows "\<exists>fs. strippedField (map_of dkvs key) bp key ctx = (fs, Normal)
           \<and> map slotOf fs = map (slotPath bp) (fieldSlot dkvs key)"
  using assms
  by (auto simp: fieldSlot_def plainField_def strippedField_def truthyU_def push_def bindE_def stripHtmlV_def
      slotOf_mkFragment slotPath_pair split: option.splits json.splits)

lemma rawField_plain:
  assumes "plainField ty (map_of dkvs key)"
  shows "\<exists>fs. rawField (map_of dkvs key) bp key ctx = (fs, Normal)
           \<and> map slotOf fs = map (slotPath bp) (fieldSlot dkvs key)"
  using assms
  by (auto simp: fieldSlot_def plainField_def rawField_def truthyU_def slotOf_mkFragment slotPath_pair
      split: option.splits json.splits)

lemma listItems_plain:
  assumes "list_all plainItem xs" "listContext style = Inr c"
  shows "\<exists>fs. listItems xs k bp style = (fs, Normal)
           \<and> map slotOf fs = map (slotPath bp) (itemSlots xs k)"
  using assms
proof (induction xs arbitrary: k)
  case Nil
  then show ?case by simp
next
  case (Cons x xs)
  then obtain s where s: "x = JStr s" "stripHtml s = s"
    by (auto simp: plainItem_def split: json.splits)
  obtain fs where fs: "listItems xs (Suc k) bp style = (fs, Normal)"
    "map slotOf fs = map (slotPath bp) (itemSlots xs (Suc k))"
    using Cons.IH [of "Suc k"] Cons.prems by auto
  show ?case
    using s fs Cons.prems(2)
    by (simp add: andThen_def push_def bindE_def stripHtmlV_def slotOf_mkFragment slotPath_pair)
qed

lemma andThen_Normal: "andThen (fs, Normal) (gs, c) = (fs @ gs, c)"
  by (simp add: andThen_def)

lemma extractFromBlock_plain:
  assumes "map_of kvs ''type'' = Some (JStr ty)" "map_of kvs ''data'' = Some (JObj dkvs)"
    and "plainData ty dkvs"
  shows "\<exists>fs. extractFromBlock (JObj kvs) i = (fs, Normal)
           \<and> map slotOf fs = map (slotPath (blockPathOf i)) (dataSlots ty dkvs)"
proof -
  let ?bp = "blockPathOf i"
  have fields: "ty \<noteq> ''list'' \<Longrightarrow> key \<in> set (textFields ty) \<Longrightarrow> plainField ty (map_of dkvs key)" for key
    using assms(3) by (simp add: plainData_def list_all_iff)
  consider (para) "ty = ''paragraph'' \<or> ty = ''header''"
    | (list) "ty = ''list''"
    | (quote) "ty = ''quote''"
    | (image) "ty = ''image'' \<or> ty = ''embed''"
    | (warning) "ty = ''warning'' \<or> ty = ''alert''"
    using assms(3) by (auto simp: plainData_def textFields_def split: if_splits)
  then show ?thesis
  proof cases
    case para
    then obtain ctx where run: "extractFromBlock (JObj kvs) i
        = strippedField (map_of dkvs ''text'') ?bp ''text'' ctx"
      using assms(1,2) by (auto simp: extractFromBlock_def orAbrupt_def getPropU_def Let_def)
    have "plainField ty (map_of dkvs ''text'')" "strips ty"
      using para fields [of "''text''"] by (auto simp: textFields_def strips_def)
    then obtain fs where "strippedField (map_of dkvs ''text'') ?bp ''text'' ctx = (fs, Normal)"
      "map slotOf fs = map (slotPath ?bp) (fieldSlot dkvs ''text'')"
      using strippedField_plain by blast
    moreover have "dataSlots ty dkvs = fieldSlot dkvs ''text''"
      using para by (auto simp: dataSlots_def textFields_def)
    ultimately show ?thesis
      using run by simp
  next
    case list
    have run: "extractFromBlock (JObj kvs) i
        = forArray (map_of dkvs ''items'') (\<lambda>xs. listItems xs 0 ?bp (map_of dkvs ''style''))"
      using list assms(1,2) by (simp add: extractFromBlock_def orAbrupt_def getPropU_def Let_def)
    show ?thesis
    proof (cases "\<exists>xs. map_of dkvs ''items'' = Some (JArr xs)")
      case True
      then obtain xs c where xs: "map_of dkvs ''items'' = Some (JArr xs)" "list_all plainItem xs"
        "listContext (map_of dkvs ''style'') = Inr c"
        using assms(3) list by (auto simp: plainData_def split: sum.splits)
      obtain fs where "listItems xs 0 ?bp (map_of dkvs ''style'') = (fs, Normal)"
        "map slotOf fs = map (slotPath ?bp) (itemSlots xs 0)"
        using listItems_plain [OF xs(2,3)] by blast
      then show ?thesis
        using run xs(1) list by (simp add: forArray_def truthyU_def dataSlots_def)
    next
      case False
      then have "\<not> truthyU (map_of dkvs ''items'')" "dataSlots ty dkvs = []"
        using assms(3) list
        by (auto simp: plainData_def truthyU_def dataSlots_def split: option.splits json.splits)
      then show ?thesis
        using run by (simp add: forArray_def)
    qed
  next
    case quote
    have run: "extractFromBlock (JObj kvs) i
        = andThen (strippedField (map_of dkvs ''text'') ?bp ''text'' ''quote text'')
            (strippedField (map_of dkvs ''caption'') ?bp ''caption'' ''quote caption'')"
      using quote assms(1,2) by (simp add: extractFromBlock_def orAbrupt_def getPropU_def Let_def)
    have "plainField ty (map_of dkvs ''text'')" "plainField ty (map_of dkvs ''caption'')" "strips ty"
      using quote fields [of "''text''"] fields [of "''caption''"]
      by (auto simp: textFields_def strips_def)
    then obtain fs gs where
      "strippedField (map_of dkvs ''text'') ?bp ''text'' ''quote text'' = (fs, Normal)"
      "map slotOf fs = map (slotPath ?bp) (fieldSlot dkvs ''text'')"
      "strippedField (map_of dkvs ''caption'') ?bp ''caption'' ''quote caption'' = (gs, Normal)"
      "map slotOf gs = map (slotPath ?bp) (fieldSlot dkvs ''caption'')"
      using strippedField_plain [of ty dkvs] by metis
    moreover have "dataSlots ty dkvs = fieldSlot dkvs ''text'' @ fieldSlot dkvs ''caption''"
      using quote by (simp add: dataSlots_def textFields_def)
    ultimately show ?thesis
      using run by (simp add: andThen_Normal)
  next
    case image
    then obtain ctx where run: "extractFromBlock (JObj kvs) i
        = rawField (map_of dkvs ''caption'') ?bp ''caption'' ctx"
      using assms(1,2) by (auto simp: extractFromBlock_def orAbrupt_def getPropU_def Let_def)
    have "plainField ty (map_of dkvs ''caption'')"
      using image fields [of "''caption''"] by (auto simp: textFields_def)
    then obtain fs where "rawField (map_of dkvs ''caption'') ?bp ''caption'' ctx = (fs, Normal)"
      "map slotOf fs = map (slotPath ?bp) (fieldSlot dkvs ''caption'')"
      using rawField_plain by blast
    moreover have "dataSlots ty dkvs = fieldSlot dkvs ''caption''"
      using image by (auto simp: dataSlots_def textFields_def)
    ultimately show ?thesis
      using run by simp
  next
    case warning
    then obtain ctx ctx' where run: "extractFromBlock (JObj kvs) i
        = andThen (rawField (map_of dkvs ''title'') ?bp ''title'' ctx)
            (rawField (map_of dkvs ''message'') ?bp ''message'' ctx')"
      using assms(1,2) by (auto simp: extractFromBlock_def orAbrupt_def getPropU_def Let_def)
    have "plainField ty (map_of dkvs ''title'')" "plainField ty (map_of dkvs ''message'')"
      using warning fields [of "''title''"] fields [of "''message''"]
      by (auto simp: textFields_def)
    then obtain fs gs where
      "rawField (map_of dkvs ''title'') ?bp ''title'' ctx = (fs, Normal)"
      "map slotOf fs = map (slotPath ?bp) (fieldSlot dkvs ''title'')"
      "rawField (map_of dkvs ''message'') ?bp ''message'' ctx' = (gs, Normal)"
      "map slotOf gs = map (slotPath ?bp) (fieldSlot dkvs ''message'')"
      using rawField_plain [of ty dkvs] by metis
    moreover have "dataSlots ty dkvs = fieldSlot dkvs ''title'' @ fieldSlot dkvs ''message''"
      using warning by (auto simp: dataSlots_def textFields_def)
    ultimately show ?thesis
      using run by (simp add: andThen_Normal)
  qed
qed

lemma plainBlock_cases:
  assumes "plainBlock b"
  obtains kvs ty dkvs where "b = JObj kvs" "map_of kvs ''type'' = Some (JStr ty)"
    "map_of kvs ''data'' = Some (JObj dkvs)" "plainData ty dkvs" "slotsOf b = dataSlots ty dkvs"
proof -
  obtain kvs where 1: "b = JObj kvs"
    using assms by (cases b) (simp_all add: plainBlock_def)
  obtain tv where 2: "map_of kvs ''type'' = Some tv"
    using assms 1 by (cases "map_of kvs ''type''") (simp_all add: plainBlock_def)
  obtain ty where 3: "tv = JStr ty"
    using assms 1 2 by (cases tv) (simp_all add: plainBlock_def)
  obtain dv where 4: "map_of kvs ''data'' = Some dv"
    using assms 1 2 3 by (cases "map_of kvs ''data''") (simp_all add: plainBlock_def)
  obtain dkvs where 5: "dv = JObj dkvs"
    using assms 1 2 3 4 by (cases dv) (simp_all add: plainBlock_def)
  have "plainData ty dkvs" "slotsOf b = dataSlots ty dkvs"
    using assms 1 2 3 4 5 by (simp_all add: plainBlock_def slotsOf_def)
  then show thesis
    using that 1 2 3 4 5 by blast
qed

lemma extractBlocks_plain:
  assumes "list_all plainBlock bs"
  shows "\<exists>fs. extractBlocks bs i = (fs, Normal)
           \<and> (\<forall>f \<in> set fs. \<exists>n < length bs. \<exists>xs \<in> set (slotsOf (bs ! n)).
                  slotOf f = slotPath (blockPathOf (i + n)) xs)"
  using assms
proof (induction bs arbitrary: i)
  case Nil
  then show ?case by simp
next
  case (Cons b bs)
  then have "plainBlock b"
    by simp
  then obtain kvs ty dkvs where b: "b = JObj kvs" "map_of kvs ''type'' = Some (JStr ty)"
    "map_of kvs ''data'' = Some (JObj dkvs)" "plainData ty dkvs" "slotsOf b = dataSlots ty dkvs"
    by (rule plainBlock_cases)
  obtain fs where fs: "extractFromBlock b i = (fs, Normal)"
    "map slotOf fs = map (slotPath (blockPathOf i)) (slotsOf b)"
    using extractFromBlock_plain [OF b(2,3,4), of i] b(1,5) by auto
  obtain gs where gs: "extractBlocks bs (Suc i) = (gs, Normal)"
    "\<forall>f \<in> set gs. \<exists>n < length bs. \<exists>xs \<in> set (slotsOf (bs ! n)).
        slotOf f = slotPath (blockPathOf (Suc i + n)) xs"
    using Cons.IH [of "Suc i"] Cons.prems by auto
  have run: "extractBlocks (b # bs) i = (fs @ gs, Normal)"
    using fs(1) gs(1) by (simp add: andThen_Normal)
  have "\<exists>n < length (b # bs). \<exists>xs \<in> set (slotsOf ((b # bs) ! n)).
          slotOf f = slotPath (blockPathOf (i + n)) xs" if "f \<in> set (fs @ gs)" for f
  proof (cases "f \<in> set fs")
    case True
    then have "slotOf f \<in> set (map (slotPath (blockPathOf i)) (slotsOf b))"
      using fs(2) by (metis image_eqI set_map)
    then obtain xs where "xs \<in> set (slotsOf b)" "slotOf f = slotPath (blockPathOf i) xs"
      by auto
    then show ?thesis
      by (intro exI [of _ 0]) auto
  next
    case False
    then have "f \<in> set gs"
      using that by simp
    then obtain n xs where "n < length bs" "xs \<in> set (slotsOf (bs ! n))"
      "slotOf f = slotPath (blockPathOf (Suc i + n)) xs"
      using gs(2) by blast
    then show ?thesis
      by (intro exI [of _ "Suc n"]) auto
  qed
  then show ?case
    using run by blast
qed

text \<open>With the fragments of a plain document, every translation being the original
  text, a path of the block \<open>n\<close> is in the map only for a slot of that block, and with
  the text of the slot.\<close>

lemma plain_map_slot:
  assumes "extractBlocks bs 0 = (fs, Normal)"
    and "\<forall>f \<in> set fs. \<exists>n < length bs. \<exists>xs \<in> set (slotsOf (bs ! n)).
           slotOf f = slotPath (blockPathOf (0 + n)) xs"
    and "pathTranslationMap (untranslated fs) (blockPathOf n @ ''.data.'' @ x) = Some t"
  shows "n < length bs \<and> (x, t) \<in> set (slotsOf (bs ! n))"
proof -
  obtain f where f: "f \<in> set (untranslated fs)" "path f = blockPathOf n @ ''.data.'' @ x"
    "t = translationOrOriginal f"
    using pathTranslationMap_Some [OF assms(3)] by blast
  then obtain f0 where f0: "f0 \<in> set fs" "path f0 = blockPathOf n @ ''.data.'' @ x" "originalText f0 = t"
    using translationOrOriginal_untranslated [OF f(1)] by (auto simp: untranslated_def)
  obtain m xs where m: "m < length bs" "xs \<in> set (slotsOf (bs ! m))"
    "slotOf f0 = slotPath (blockPathOf m) xs"
    using assms(2) f0(1) by fastforce
  have "blockPathOf n @ ''.data.'' @ x = blockPathOf m @ ''.data.'' @ fst xs" "t = snd xs"
    using m(3) f0(2,3) by (simp_all add: slotOf_def slotPath_def)
  then have "n = m" "xs = (x, t)"
    using field_path_inj [of n x m "fst xs"] by (simp_all add: prod_eq_iff)
  then show ?thesis
    using m(1,2) by simp
qed

lemma fieldSlot_mem:
  "(x, t) \<in> set (fieldSlot dkvs key) \<Longrightarrow> x = key \<and> map_of dkvs key = Some (JStr t)"
  by (auto simp: fieldSlot_def split: option.splits json.splits if_splits)

lemma itemSlots_mem:
  "(x, t) \<in> set (itemSlots xs k) \<Longrightarrow>
     \<exists>m < length xs. x = ''items['' @ showNat (k + m) @ '']'' \<and> xs ! m = JStr t"
proof (induction xs arbitrary: k)
  case Nil
  then show ?case by simp
next
  case (Cons y ys)
  show ?case
  proof (cases "(x, t) \<in> set (itemSlots ys (Suc k))")
    case True
    then obtain m where "m < length ys" "x = ''items['' @ showNat (Suc k + m) @ '']''" "ys ! m = JStr t"
      using Cons.IH [of "Suc k"] by blast
    then show ?thesis
      by (intro exI [of _ "Suc m"]) simp
  next
    case False
    then have "x = ''items['' @ showNat k @ '']''" "y = JStr t"
      using Cons.prems by (auto split: json.splits)
    then show ?thesis
      by (intro exI [of _ 0]) simp
  qed
qed

lemma item_key_inj:
  assumes "''items['' @ showNat a @ '']'' = ''items['' @ showNat b @ '']''"
  shows "a = b"
proof -
  have "showNat a = showNat b"
    using assms by simp
  then show ?thesis
    by (rule showNat_inj)
qed

lemma reconstructData_plain:
  assumes "plainData ty dkvs"
    and hit: "\<forall>x t. tm (bp @ ''.data.'' @ x) = Some t \<longrightarrow> (x, t) \<in> set (dataSlots ty dkvs)"
  shows "reconstructData (Some (JStr ty)) (Some (JObj dkvs)) bp tm = Inr (Some (JObj dkvs))"
proof (cases "ty = ''list''")
  case True
  have run: "reconstructData (Some (JStr ty)) (Some (JObj dkvs)) bp tm
      = (if truthyU (map_of dkvs ''items'') then
           (case map_of dkvs ''items'' of
              Some (JArr xs) \<Rightarrow>
                Inr (Some (JObj (assign dkvs ''items'' (JArr (reconstructListItems xs 0 bp tm)))))
            | _ \<Rightarrow> Inl TypeError)
         else Inr (Some (JObj dkvs)))"
    using True
    by (auto simp: reconstructData_def bindE_def getPropU_def split: option.splits json.splits)
  show ?thesis
  proof (cases "\<exists>xs. map_of dkvs ''items'' = Some (JArr xs)")
    case False
    then have "\<not> truthyU (map_of dkvs ''items'')"
      using assms(1) True by (auto simp: plainData_def truthyU_def split: option.splits json.splits)
    then show ?thesis
      using run by simp
  next
    case ex: True
    then obtain xs where xs: "map_of dkvs ''items'' = Some (JArr xs)"
      by blast
    have same: "reconstructListItems xs 0 bp tm ! n = xs ! n" if n: "n < length xs" for n
    proof (cases "tm (bp @ ''.data.'' @ (''items['' @ showNat n @ '']''))")
      case None
      then show ?thesis
        using n by (simp add: reconstructListItems_nth getOr_def)
    next
      case (Some t)
      then have "(''items['' @ showNat n @ '']'', t) \<in> set (itemSlots xs 0)"
        using hit True xs by (auto simp: dataSlots_def)
      then obtain m where m: "m < length xs" "''items['' @ showNat n @ '']'' = ''items['' @ showNat (0 + m) @ '']''"
        "xs ! m = JStr t"
        using itemSlots_mem by blast
      have "n = m"
        using item_key_inj [of n m] m(2) by simp
      then show ?thesis
        using n Some m(3) by (simp add: reconstructListItems_nth getOr_def)
    qed
    have "reconstructListItems xs 0 bp tm = xs"
      by (rule nth_equalityI) (simp_all add: reconstructListItems_length same)
    then show ?thesis
      using run xs by (simp add: truthyU_def assign_same)
  qed
next
  case False
  have upd: "updateTextPath (Some (JObj dkvs)) key (bp @ ''.data.'' @ key) tm = Inr (Some (JObj dkvs))"
    if "key \<in> set (textFields ty)" for key
  proof (cases "tm (bp @ ''.data.'' @ key)")
    case None
    then show ?thesis
      by (simp add: updateTextPath_object)
  next
    case (Some t)
    then have "(key, t) \<in> set (dataSlots ty dkvs)"
      using hit by blast
    then obtain key' where "(key, t) \<in> set (fieldSlot dkvs key')"
      using False by (auto simp: dataSlots_def)
    then have "map_of dkvs key = Some (JStr t)"
      using fieldSlot_mem by blast
    then show ?thesis
      using Some by (simp add: updateTextPath_object assign_same)
  qed
  consider (para) "ty = ''paragraph'' \<or> ty = ''header''"
    | (quote) "ty = ''quote''"
    | (image) "ty = ''image'' \<or> ty = ''embed''"
    | (warning) "ty = ''warning'' \<or> ty = ''alert''"
    using assms(1) False by (auto simp: plainData_def textFields_def split: if_splits)
  then show ?thesis
  proof cases
    case para
    then show ?thesis
      using upd [of "''text''"] by (auto simp: reconstructData_def textFields_def)
  next
    case quote
    then show ?thesis
      using upd [of "''text''"] upd [of "''caption''"]
      by (simp add: reconstructData_def textFields_def bindE_def)
  next
    case image
    then show ?thesis
      using upd [of "''caption''"] by (auto simp: reconstructData_def textFields_def)
  next
    case warning
    then show ?thesis
      using upd [of "''title''"] upd [of "''message''"]
      by (auto simp: reconstructData_def textFields_def bindE_def)
  qed
qed

lemma reconstructBlock_plain:
  assumes "plainBlock b"
    and "\<forall>x t. tm (blockPathOf i @ ''.data.'' @ x) = Some t \<longrightarrow> (x, t) \<in> set (slotsOf b)"
  shows "reconstructBlock b i tm = Inr b"
proof -
  obtain kvs ty dkvs where b: "b = JObj kvs" "map_of kvs ''type'' = Some (JStr ty)"
    "map_of kvs ''data'' = Some (JObj dkvs)" "plainData ty dkvs" "slotsOf b = dataSlots ty dkvs"
    using assms(1) by (rule plainBlock_cases)
  have "reconstructData (Some (JStr ty)) (Some (JObj dkvs)) (blockPathOf i) tm = Inr (Some (JObj dkvs))"
    using assms(2) b(5) by (intro reconstructData_plain [OF b(4)]) simp
  then show ?thesis
    using b(1,2,3) by (simp add: reconstructBlock_def bindE_def withData_def assign_same)
qed

lemma reconstructBlocks_fixed:
  assumes "\<forall>n < length bs. reconstructBlock (bs ! n) (i + n) tm = Inr (bs ! n)"
  shows "reconstructBlocks bs i tm = Inr bs"
  using assms
proof (induction bs arbitrary: i)
  case Nil
  then show ?case by simp
next
  case (Cons b bs)
  have "reconstructBlock b i tm = Inr b"
    using Cons.prems [rule_format, of 0] by simp
  moreover have "reconstructBlocks bs (Suc i) tm = Inr bs"
  proof (rule Cons.IH, intro allI impI)
    fix n
    assume "n < length bs"
    then show "reconstructBlock (bs ! n) (Suc i + n) tm = Inr (bs ! n)"
      using Cons.prems [rule_format, of "Suc n"] by simp
  qed
  ultimately show ?case
    by (simp add: bindE_def)
qed

lemma editorJS_round_trip_plain:
  assumes "JSON_parse D = Some e" "plainDocument e"
  shows "\<exists>fs. EditorJSParser_parse JSON_parse D = Some fs
           \<and> rebuildEditorJS e (pathTranslationMap (untranslated fs)) = Inr e"
proof -
  obtain kvs where 1: "e = JObj kvs"
    using assms(2) by (cases e) (simp_all add: plainDocument_def)
  obtain v where 2: "map_of kvs ''blocks'' = Some v"
    using assms(2) 1 by (cases "map_of kvs ''blocks''") (simp_all add: plainDocument_def)
  obtain bs where 3: "v = JArr bs"
    using assms(2) 1 2 by (cases v) (simp_all add: plainDocument_def)
  have e: "e = JObj kvs" "map_of kvs ''blocks'' = Some (JArr bs)" "list_all plainBlock bs"
    using assms(2) 1 2 3 by (simp_all add: plainDocument_def)
  obtain fs where fs: "extractBlocks bs 0 = (fs, Normal)"
    "\<forall>f \<in> set fs. \<exists>n < length bs. \<exists>xs \<in> set (slotsOf (bs ! n)).
        slotOf f = slotPath (blockPathOf (0 + n)) xs"
    using extractBlocks_plain [OF e(3), of 0] by blast
  let ?tm = "pathTranslationMap (untranslated fs)"
  have parse: "EditorJSParser_parse JSON_parse D = Some fs"
    using assms(1) e(1,2) fs(1)
    by (simp add: EditorJSParser_parse_def EditorJSParser_run_def orAbrupt_def)
  have "reconstructBlock (bs ! n) (0 + n) ?tm = Inr (bs ! n)" if n: "n < length bs" for n
  proof (rule reconstructBlock_plain)
    show "plainBlock (bs ! n)"
      using e(3) n by (simp add: list_all_length)
    show "\<forall>x t. ?tm (blockPathOf (0 + n) @ ''.data.'' @ x) = Some t \<longrightarrow> (x, t) \<in> set (slotsOf (bs ! n))"
      using plain_map_slot [OF fs] by auto
  qed
  then have "reconstructBlocks bs 0 ?tm = Inr bs"
    by (intro reconstructBlocks_fixed) blast
  then have "rebuildEditorJS e ?tm = Inr e"
    using e(1,2) by (simp add: rebuildEditorJS_def bindE_def assign_same)
  then show ?thesis
    using parse by blast
qed

subsection \<open>Matched positions of tables, checklists and other blocks\<close>

text \<open>The block types with a case of their own in the \<open>switch\<close> of \<open>reconstructBlock\<close>; a
  block whose \<open>type\<close> is none of them goes to \<open>reconstructGenericTextFields\<close>.\<close>

definition knownTypes :: "string list" where
  "knownTypes = [''paragraph'', ''header'', ''list'', ''quote'', ''image'', ''embed'', ''table'',
                 ''checklist'', ''warning'', ''alert'']"

definition customType :: "json option \<Rightarrow> bool" where
  "customType ty = (ty \<notin> set (map (\<lambda>t. Some (JStr t)) knownTypes))"

lemma reconstructData_custom:
  "customType ty \<Longrightarrow> reconstructData ty dat bp tm = Inr (reconstructGenericTextFields dat bp tm)"
  by (auto simp: customType_def knownTypes_def reconstructData_def)

lemma reconstructRows_nth:
  "reconstructRows rows r bp tm = Inr rows' \<Longrightarrow> n < length rows \<Longrightarrow> rows ! n = JArr cells \<Longrightarrow>
     rows' ! n = JArr (reconstructCells cells (r + n) 0 bp tm)"
proof (induction rows arbitrary: r rows' n)
  case Nil
  then show ?case by simp
next
  case (Cons row rows)
  then obtain cs rest where c: "row = JArr cs" "reconstructRows rows (Suc r) bp tm = Inr rest"
    "rows' = JArr (reconstructCells cs r 0 bp tm) # rest"
    by (cases row) (auto simp: bindE_def split: sum.splits)
  show ?case
  proof (cases n)
    case 0
    then show ?thesis
      using c Cons.prems(3) by simp
  next
    case (Suc m)
    then show ?thesis
      using Cons.IH [OF c(2), of m] Cons.prems(2,3) c(3) by simp
  qed
qed

lemma reconstructChecklist_nth:
  "reconstructChecklist items i bp tm = Inr items' \<Longrightarrow> n < length items \<Longrightarrow>
     (case tm (bp @ ''.data.items['' @ showNat (i + n) @ ''].text'') of
        None \<Rightarrow> Inr (items ! n)
      | Some t \<Rightarrow> setProp (Some (items ! n)) ''text'' (JStr t)) = Inr (items' ! n)"
proof (induction items arbitrary: i items' n)
  case Nil
  then show ?case by simp
next
  case (Cons item items)
  then obtain item' rest where c:
    "(case tm (bp @ ''.data.items['' @ showNat i @ ''].text'') of
        None \<Rightarrow> Inr item
      | Some t \<Rightarrow> setProp (Some item) ''text'' (JStr t)) = Inr item'"
    "reconstructChecklist items (Suc i) bp tm = Inr rest" "items' = item' # rest"
    by (auto simp: bindE_def split: sum.splits)
  show ?case
  proof (cases n)
    case 0
    then show ?thesis
      using c by (auto split: option.splits)
  next
    case (Suc m)
    then show ?thesis
      using Cons.IH [OF c(2), of m] Cons.prems(2) c(3) by (auto split: option.splits)
  qed
qed

lemma map_of_map_values:
  "map_of (map (\<lambda>(k, v). (k, f k v)) kvs) key = map_option (f key) (map_of kvs key)"
  by (induction kvs) auto

lemma reconstructBlock_table_cell:
  assumes "reconstructBlock (JObj kvs) i tm = Inr b'"
    and "map_of kvs ''type'' = Some (JStr ''table'')"
    and "map_of kvs ''data'' = Some (JObj dkvs)" "map_of dkvs ''content'' = Some (JArr rows)"
    and "r < length rows" "rows ! r = JArr cells" "c < length cells"
  shows "jget b' [Key ''data'', Key ''content'', Idx r, Idx c]
           = Some (getOr tm (blockPathOf i @ ''.data.content['' @ showNat r @ '']['' @ showNat c @ '']'')
                     (cells ! c))"
proof -
  let ?bp = "blockPathOf i"
  obtain d where d: "reconstructData (Some (JStr ''table'')) (Some (JObj dkvs)) ?bp tm = Inr d"
    "b' = withData kvs d"
    using assms(1,2,3) by (auto simp: reconstructBlock_def bindE_def split: sum.splits)
  obtain rows' where rows': "reconstructRows rows 0 ?bp tm = Inr rows'"
    "d = Some (JObj (assign dkvs ''content'' (JArr rows')))"
    using d(1) assms(4)
    by (auto simp: reconstructData_def bindE_def getPropU_def truthyU_def split: sum.splits)
  have len: "length rows' = length rows"
    using reconstructRows_agrees [OF rows'(1)] by simp
  have "rows' ! r = JArr (reconstructCells cells r 0 ?bp tm)"
    using reconstructRows_nth [OF rows'(1) assms(5,6)] by simp
  then show ?thesis
    using d(2) rows'(2) len assms(5,7)
    by (simp add: withData_def map_of_assign reconstructCells_length reconstructCells_nth)
qed

lemma reconstructBlock_checklist_item:
  assumes "reconstructBlock (JObj kvs) i tm = Inr b'"
    and "map_of kvs ''type'' = Some (JStr ''checklist'')"
    and "map_of kvs ''data'' = Some (JObj dkvs)" "map_of dkvs ''items'' = Some (JArr xs)"
    and "n < length xs" "xs ! n = JObj ikvs"
    and "tm (blockPathOf i @ ''.data.items['' @ showNat n @ ''].text'') = Some u"
  shows "jget b' [Key ''data'', Key ''items'', Idx n, Key ''text''] = Some (JStr u)"
proof -
  let ?bp = "blockPathOf i"
  obtain d where d: "reconstructData (Some (JStr ''checklist'')) (Some (JObj dkvs)) ?bp tm = Inr d"
    "b' = withData kvs d"
    using assms(1,2,3) by (auto simp: reconstructBlock_def bindE_def split: sum.splits)
  obtain xs' where xs': "reconstructChecklist xs 0 ?bp tm = Inr xs'"
    "d = Some (JObj (assign dkvs ''items'' (JArr xs')))"
    using d(1) assms(4)
    by (auto simp: reconstructData_def bindE_def getPropU_def truthyU_def split: sum.splits)
  have len: "length xs' = length xs"
    using reconstructChecklist_agrees [OF xs'(1)] by simp
  have "xs' ! n = JObj (assign ikvs ''text'' (JStr u))"
    using reconstructChecklist_nth [OF xs'(1) assms(5)] assms(6,7) by simp
  then show ?thesis
    using d(2) xs'(2) len assms(5)
    by (simp add: withData_def map_of_assign)
qed

lemma reconstructBlock_custom:
  assumes "reconstructBlock (JObj kvs) i tm = Inr b'"
    and "customType (map_of kvs ''type'')" "map_of kvs ''data'' = Some (JObj dkvs)"
  shows "jget b' [Key ''data'', Key key]
           = map_option (\<lambda>v. reconstructGenericValue key v (blockPathOf i) tm) (map_of dkvs key)"
proof -
  have "b' = withData kvs (reconstructGenericTextFields (Some (JObj dkvs)) (blockPathOf i) tm)"
    using assms by (simp add: reconstructBlock_def reconstructData_custom bindE_def)
  then show ?thesis
    by (cases "map_of dkvs key")
       (simp_all add: withData_def reconstructGenericTextFields_def map_of_assign map_of_map_values)
qed

lemma reconstructBlock_custom_field:
  assumes "reconstructBlock (JObj kvs) i tm = Inr b'"
    and "customType (map_of kvs ''type'')" "map_of kvs ''data'' = Some (JObj dkvs)"
    and "map_of dkvs key = Some (JStr s)" "tm (blockPathOf i @ ''.data.'' @ key) = Some u"
  shows "jget b' [Key ''data'', Key key] = Some (JStr u)"
  using reconstructBlock_custom [OF assms(1,2,3), of key] assms(4,5)
  by (simp add: reconstructGenericValue_def getIfHas_def)

lemma reconstructBlock_custom_item:
  assumes "reconstructBlock (JObj kvs) i tm = Inr b'"
    and "customType (map_of kvs ''type'')" "map_of kvs ''data'' = Some (JObj dkvs)"
    and "map_of dkvs key = Some (JArr xs)" "n < length xs"
    and "tm (blockPathOf i @ ''.data.'' @ key @ ''['' @ showNat n @ '']'') = Some u"
  shows "jget b' [Key ''data'', Key key, Idx n] = Some (JStr u)"
proof -
  have "jget b' [Key ''data'', Key key]
      = Some (JArr (reconstructGenericItems xs 0 (blockPathOf i @ ''.data.'' @ key) tm))"
    using reconstructBlock_custom [OF assms(1,2,3), of key] assms(4)
    by (simp add: reconstructGenericValue_def)
  then have "jget b' ([Key ''data'', Key key] @ [Idx n])
      = jget (JArr (reconstructGenericItems xs 0 (blockPathOf i @ ''.data.'' @ key) tm)) [Idx n]"
    by (simp only: jget_append option.case)
  then show ?thesis
    using assms(5,6)
    by (simp add: reconstructGenericItems_length reconstructGenericItems_nth getIfHas_def)
qed

subsection \<open>The positions that a rebuild writes to\<close>

text \<open>
  The positions of an Editor.js block that \<open>reconstructBlock\<close> assigns to when their path
  is in the map, each with its path and the value it holds (\<open>None\<close> for a text field that
  the data does not have). Where an assignment can only throw or change nothing (the data
  or the item is no object), there is no position.
\<close>

fun indexedPositions :: "json list \<Rightarrow> nat \<Rightarrow> string \<Rightarrow> (string \<times> json option) list" where
  "indexedPositions [] k p = []"
| "indexedPositions (x # xs) k p =
     (p @ ''['' @ showNat k @ '']'', Some x) # indexedPositions xs (Suc k) p"

fun rowPositions :: "json list \<Rightarrow> nat \<Rightarrow> string \<Rightarrow> (string \<times> json option) list" where
  "rowPositions [] r bp = []"
| "rowPositions (row # rows) r bp =
     (case row of
        JArr cells \<Rightarrow> indexedPositions cells 0 (bp @ ''.data.content['' @ showNat r @ '']'')
      | _ \<Rightarrow> [])
     @ rowPositions rows (Suc r) bp"

fun checklistPositions :: "json list \<Rightarrow> nat \<Rightarrow> string \<Rightarrow> (string \<times> json option) list" where
  "checklistPositions [] k bp = []"
| "checklistPositions (item # items) k bp =
     (case item of
        JObj ikvs \<Rightarrow> [(bp @ ''.data.items['' @ showNat k @ ''].text'', map_of ikvs ''text'')]
      | _ \<Rightarrow> [])
     @ checklistPositions items (Suc k) bp"

fun genericPositions :: "(string \<times> json) list \<Rightarrow> string \<Rightarrow> (string \<times> json option) list" where
  "genericPositions [] bp = []"
| "genericPositions ((key, v) # kvs) bp =
     (case v of
        JStr s \<Rightarrow> [(bp @ ''.data.'' @ key, Some v)]
      | JArr items \<Rightarrow> indexedPositions items 0 (bp @ ''.data.'' @ key)
      | _ \<Rightarrow> [])
     @ genericPositions kvs bp"

definition fieldPositions :: "json option \<Rightarrow> string \<Rightarrow> string list \<Rightarrow> (string \<times> json option) list" where
  "fieldPositions dat bp keys =
     (case dat of
        Some (JObj dkvs) \<Rightarrow> map (\<lambda>key. (bp @ ''.data.'' @ key, map_of dkvs key)) keys
      | _ \<Rightarrow> [])"

definition arrayField :: "json option \<Rightarrow> string \<Rightarrow> json list" where
  "arrayField dat key =
     (case dat of
        Some (JObj dkvs) \<Rightarrow> (case map_of dkvs key of Some (JArr xs) \<Rightarrow> xs | _ \<Rightarrow> [])
      | _ \<Rightarrow> [])"

definition dataPositions :: "json option \<Rightarrow> json option \<Rightarrow> string \<Rightarrow> (string \<times> json option) list" where
  "dataPositions ty dat bp =
     (if ty = Some (JStr ''paragraph'') \<or> ty = Some (JStr ''header'') then
        fieldPositions dat bp [''text'']
      else if ty = Some (JStr ''list'') then
        indexedPositions (arrayField dat ''items'') 0 (bp @ ''.data.items'')
      else if ty = Some (JStr ''quote'') then
        fieldPositions dat bp [''text'', ''caption'']
      else if ty = Some (JStr ''image'') \<or> ty = Some (JStr ''embed'') then
        fieldPositions dat bp [''caption'']
      else if ty = Some (JStr ''table'') then
        rowPositions (arrayField dat ''content'') 0 bp
      else if ty = Some (JStr ''checklist'') then
        checklistPositions (arrayField dat ''items'') 0 bp
      else if ty = Some (JStr ''warning'') \<or> ty = Some (JStr ''alert'') then
        fieldPositions dat bp [''title'', ''message'']
      else (case dat of
              Some (JObj kvs) \<Rightarrow> genericPositions kvs bp
            | Some (JArr xs) \<Rightarrow> genericPositions (indexed 0 xs) bp
            | _ \<Rightarrow> []))"

definition blockPositions :: "json \<Rightarrow> nat \<Rightarrow> (string \<times> json option) list" where
  "blockPositions block blockIndex =
     (case block of
        JObj kvs \<Rightarrow> dataPositions (map_of kvs ''type'') (map_of kvs ''data'') (blockPathOf blockIndex)
      | _ \<Rightarrow> [])"

fun blocksPositions :: "json list \<Rightarrow> nat \<Rightarrow> (string \<times> json option) list" where
  "blocksPositions [] blockIndex = []"
| "blocksPositions (block # blocks) blockIndex =
     blockPositions block blockIndex @ blocksPositions blocks (Suc blockIndex)"

definition editorPositions :: "json \<Rightarrow> (string \<times> json option) list" where
  "editorPositions editorData = blocksPositions (blocksOf editorData) 0"

text \<open>The map \<open>tm\<close> keeps the positions \<open>ps\<close>: a position whose path is in the map holds,
  as a string, the text that the map has for it.\<close>

definition keeps :: "(string \<rightharpoonup> string) \<Rightarrow> (string \<times> json option) list \<Rightarrow> bool" where
  "keeps tm ps = (\<forall>(q, v) \<in> set ps. \<forall>t. tm q = Some t \<longrightarrow> v = Some (JStr t))"

lemma keeps_Nil: "keeps tm []"
  by (simp add: keeps_def)

lemma keeps_Cons: "keeps tm ((q, v) # ps) = ((\<forall>t. tm q = Some t \<longrightarrow> v = Some (JStr t)) \<and> keeps tm ps)"
  by (simp add: keeps_def)

lemma keeps_append: "keeps tm (ps @ qs) = (keeps tm ps \<and> keeps tm qs)"
  by (auto simp: keeps_def)

lemma reconstructListItems_fixed:
  "keeps tm (indexedPositions xs k (bp @ ''.data.items'')) \<Longrightarrow> reconstructListItems xs k bp tm = xs"
  by (induction xs arbitrary: k) (auto simp: keeps_Cons getOr_def split: option.splits)

lemma reconstructCells_fixed:
  "keeps tm (indexedPositions cells c (bp @ ''.data.content['' @ showNat r @ '']'')) \<Longrightarrow>
     reconstructCells cells r c bp tm = cells"
  by (induction cells arbitrary: c) (auto simp: keeps_Cons getOr_def split: option.splits)

lemma reconstructRows_fixed:
  "reconstructRows rows r bp tm = Inr rows' \<Longrightarrow> keeps tm (rowPositions rows r bp) \<Longrightarrow> rows' = rows"
proof (induction rows arbitrary: r rows')
  case Nil
  then show ?case by simp
next
  case (Cons row rows)
  then obtain cs rest where c: "row = JArr cs" "reconstructRows rows (Suc r) bp tm = Inr rest"
    "rows' = JArr (reconstructCells cs r 0 bp tm) # rest"
    by (cases row) (auto simp: bindE_def split: sum.splits)
  have "reconstructCells cs r 0 bp tm = cs"
    using Cons.prems(2) c(1) by (intro reconstructCells_fixed) (simp add: keeps_append)
  moreover have "rest = rows"
    using Cons.IH [OF c(2)] Cons.prems(2) by (simp add: keeps_append)
  ultimately show ?case
    using c by simp
qed

lemma setProp_fixed:
  assumes "setProp (Some x) key (JStr t) = Inr x'"
    and "\<And>kvs. x = JObj kvs \<Longrightarrow> map_of kvs key = Some (JStr t)"
  shows "x' = x"
  using assms by (cases x) (auto simp: assign_same)

lemma reconstructChecklist_fixed:
  "reconstructChecklist items k bp tm = Inr items' \<Longrightarrow> keeps tm (checklistPositions items k bp) \<Longrightarrow>
     items' = items"
proof (induction items arbitrary: k items')
  case Nil
  then show ?case by simp
next
  case (Cons item items)
  then obtain item' rest where c:
    "(case tm (bp @ ''.data.items['' @ showNat k @ ''].text'') of
        None \<Rightarrow> Inr item
      | Some t \<Rightarrow> setProp (Some item) ''text'' (JStr t)) = Inr item'"
    "reconstructChecklist items (Suc k) bp tm = Inr rest" "items' = item' # rest"
    by (auto simp: bindE_def split: sum.splits)
  have "item' = item"
  proof (cases "tm (bp @ ''.data.items['' @ showNat k @ ''].text'')")
    case None
    then show ?thesis using c(1) by simp
  next
    case (Some t)
    then have "setProp (Some item) ''text'' (JStr t) = Inr item'"
      using c(1) by simp
    then show ?thesis
    proof (rule setProp_fixed)
      fix ikvs
      assume "item = JObj ikvs"
      then show "map_of ikvs ''text'' = Some (JStr t)"
        using Cons.prems(2) Some by (simp add: keeps_append keeps_Cons)
    qed
  qed
  moreover have "rest = items"
    using Cons.IH [OF c(2)] Cons.prems(2) by (simp add: keeps_append)
  ultimately show ?case
    using c(3) by simp
qed

lemma reconstructGenericItems_fixed:
  "keeps tm (indexedPositions xs k cp) \<Longrightarrow> reconstructGenericItems xs k cp tm = xs"
  by (induction xs arbitrary: k) (auto simp: keeps_Cons getIfHas_def split: option.splits)

lemma reconstructGenericValue_fixed:
  assumes "keeps tm (genericPositions [(key, v)] bp)"
  shows "reconstructGenericValue key v bp tm = v"
proof (cases v)
  case (JStr s)
  then show ?thesis
    using assms by (auto simp: reconstructGenericValue_def getIfHas_def keeps_Cons split: option.splits)
next
  case (JArr items)
  then show ?thesis
    using assms reconstructGenericItems_fixed [of tm items 0 "bp @ ''.data.'' @ key"]
    by (simp add: reconstructGenericValue_def)
qed (simp_all add: reconstructGenericValue_def)

lemma genericPositions_Cons:
  "genericPositions ((key, v) # kvs) bp = genericPositions [(key, v)] bp @ genericPositions kvs bp"
  by simp

lemma reconstructGeneric_entries_fixed:
  "keeps tm (genericPositions kvs bp) \<Longrightarrow>
     map (\<lambda>(key, v). (key, reconstructGenericValue key v bp tm)) kvs = kvs
     \<and> map (\<lambda>(key, v). reconstructGenericValue key v bp tm) kvs = map snd kvs"
proof (induction kvs)
  case Nil
  then show ?case by simp
next
  case (Cons kv kvs)
  obtain key v where kv: "kv = (key, v)"
    by (cases kv)
  have k: "keeps tm (genericPositions [(key, v)] bp)" "keeps tm (genericPositions kvs bp)"
    using Cons.prems unfolding kv genericPositions_Cons [of key v kvs] keeps_append by simp_all
  show ?case
    using Cons.IH [OF k(2)] reconstructGenericValue_fixed [OF k(1)] by (simp add: kv)
qed

lemma map_snd_indexed: "map snd (indexed k xs) = xs"
  by (induction xs arbitrary: k) auto

lemma updateTextPath_fixed:
  assumes "updateTextPath dat key p tm = Inr d"
    and "\<And>dkvs t. dat = Some (JObj dkvs) \<Longrightarrow> tm p = Some t \<Longrightarrow> map_of dkvs key = Some (JStr t)"
  shows "d = dat"
proof (cases "tm p")
  case None
  then show ?thesis
    using assms(1) by (simp add: updateTextPath_def)
next
  case (Some t)
  show ?thesis
  proof (cases dat)
    case None
    then show ?thesis
      using assms(1) Some by (simp add: updateTextPath_def bindE_def)
  next
    case dat: (Some x)
    then obtain x' where x': "setProp (Some x) key (JStr t) = Inr x'" "d = Some x'"
      using assms(1) Some by (auto simp: updateTextPath_def bindE_def split: sum.splits)
    have "x' = x"
      using x'(1) assms(2) dat Some by (intro setProp_fixed [of x key t x']) auto
    then show ?thesis
      using x'(2) dat by simp
  qed
qed

lemma fieldPositions_keeps:
  assumes "keeps tm (fieldPositions dat bp keys)" "key \<in> set keys"
    and "dat = Some (JObj dkvs)" "tm (bp @ ''.data.'' @ key) = Some t"
  shows "map_of dkvs key = Some (JStr t)"
  using assms by (auto simp: keeps_def fieldPositions_def)

lemma reconstructData_fixed:
  assumes "reconstructData ty dat bp tm = Inr d" "keeps tm (dataPositions ty dat bp)"
  shows "d = dat"
proof -
  have field: "updateTextPath dat key (bp @ ''.data.'' @ key) tm = Inr d' \<Longrightarrow>
      keeps tm (fieldPositions dat bp keys) \<Longrightarrow> key \<in> set keys \<Longrightarrow> d' = dat" for key keys d'
    by (erule updateTextPath_fixed) (rule fieldPositions_keeps)
  consider (para) "ty = Some (JStr ''paragraph'') \<or> ty = Some (JStr ''header'')"
    | (list) "ty = Some (JStr ''list'')"
    | (quote) "ty = Some (JStr ''quote'')"
    | (image) "ty = Some (JStr ''image'') \<or> ty = Some (JStr ''embed'')"
    | (table) "ty = Some (JStr ''table'')"
    | (checklist) "ty = Some (JStr ''checklist'')"
    | (warning) "ty = Some (JStr ''warning'') \<or> ty = Some (JStr ''alert'')"
    | (other) "ty \<noteq> Some (JStr ''paragraph'')" "ty \<noteq> Some (JStr ''header'')"
        "ty \<noteq> Some (JStr ''list'')" "ty \<noteq> Some (JStr ''quote'')" "ty \<noteq> Some (JStr ''image'')"
        "ty \<noteq> Some (JStr ''embed'')" "ty \<noteq> Some (JStr ''table'')" "ty \<noteq> Some (JStr ''checklist'')"
        "ty \<noteq> Some (JStr ''warning'')" "ty \<noteq> Some (JStr ''alert'')"
    by blast
  then show ?thesis
  proof cases
    case para
    then have "updateTextPath dat ''text'' (bp @ ''.data.'' @ ''text'') tm = Inr d"
      "keeps tm (fieldPositions dat bp [''text''])"
      using assms by (auto simp: reconstructData_def dataPositions_def)
    then show ?thesis
      by (rule field) simp
  next
    case list
    then have run: "bindE (getPropU dat ''items'') (\<lambda>items.
          if truthyU items then
            (case items of
               Some (JArr xs) \<Rightarrow>
                 bindE (setProp dat ''items'' (JArr (reconstructListItems xs 0 bp tm)))
                   (\<lambda>d. Inr (Some d))
             | _ \<Rightarrow> Inl TypeError)
          else Inr dat) = Inr d"
      and keep: "keeps tm (indexedPositions (arrayField dat ''items'') 0 (bp @ ''.data.items''))"
      using assms by (simp_all add: reconstructData_def dataPositions_def)
    obtain items where items: "getPropU dat ''items'' = Inr items"
      using run by (auto simp: bindE_def split: sum.splits)
    show ?thesis
    proof (cases "truthyU items")
      case False
      then show ?thesis using run items by (simp add: bindE_def)
    next
      case True
      then obtain xs d' where x: "items = Some (JArr xs)"
        "setProp dat ''items'' (JArr (reconstructListItems xs 0 bp tm)) = Inr d'" "d = Some d'"
        using run items
        by (auto simp: bindE_def split: sum.splits option.splits json.splits)
      obtain dkvs where dkvs: "dat = Some (JObj dkvs)" "map_of dkvs ''items'' = Some (JArr xs)"
        using items x(1) by (cases dat; cases "the dat") (auto simp: getPropU_def)
      have "reconstructListItems xs 0 bp tm = xs"
        using keep dkvs by (intro reconstructListItems_fixed) (simp add: arrayField_def)
      then show ?thesis
        using x(2,3) dkvs by (simp add: assign_same)
    qed
  next
    case quote
    then obtain d1 where d1: "updateTextPath dat ''text'' (bp @ ''.data.'' @ ''text'') tm = Inr d1"
      "updateTextPath d1 ''caption'' (bp @ ''.data.'' @ ''caption'') tm = Inr d"
      and keep: "keeps tm (fieldPositions dat bp [''text'', ''caption''])"
      using assms by (auto simp: reconstructData_def dataPositions_def bindE_def split: sum.splits)
    have "d1 = dat"
      using d1(1) keep by (rule field) simp
    then show ?thesis
      using d1(2) keep field [of "''caption''" d "[''text'', ''caption'']"] by simp
  next
    case image
    then have "updateTextPath dat ''caption'' (bp @ ''.data.'' @ ''caption'') tm = Inr d"
      "keeps tm (fieldPositions dat bp [''caption''])"
      using assms by (auto simp: reconstructData_def dataPositions_def)
    then show ?thesis
      by (rule field) simp
  next
    case table
    then have run: "bindE (getPropU dat ''content'') (\<lambda>content.
          if truthyU content then
            (case content of
               Some (JArr rows) \<Rightarrow>
                 bindE (reconstructRows rows 0 bp tm) (\<lambda>rows'.
                 bindE (setProp dat ''content'' (JArr rows')) (\<lambda>d. Inr (Some d)))
             | _ \<Rightarrow> Inl TypeError)
          else Inr dat) = Inr d"
      and keep: "keeps tm (rowPositions (arrayField dat ''content'') 0 bp)"
      using assms by (simp_all add: reconstructData_def dataPositions_def)
    obtain content where content: "getPropU dat ''content'' = Inr content"
      using run by (auto simp: bindE_def split: sum.splits)
    show ?thesis
    proof (cases "truthyU content")
      case False
      then show ?thesis using run content by (simp add: bindE_def)
    next
      case True
      then obtain rows rows' d' where x: "content = Some (JArr rows)"
        "reconstructRows rows 0 bp tm = Inr rows'"
        "setProp dat ''content'' (JArr rows') = Inr d'" "d = Some d'"
        using run content
        by (auto simp: bindE_def split: sum.splits option.splits json.splits)
      obtain dkvs where dkvs: "dat = Some (JObj dkvs)" "map_of dkvs ''content'' = Some (JArr rows)"
        using content x(1) by (cases dat; cases "the dat") (auto simp: getPropU_def)
      have "rows' = rows"
        using keep dkvs by (intro reconstructRows_fixed [OF x(2)]) (simp add: arrayField_def)
      then show ?thesis
        using x(3,4) dkvs by (simp add: assign_same)
    qed
  next
    case checklist
    then have run: "bindE (getPropU dat ''items'') (\<lambda>items.
          if truthyU items then
            (case items of
               Some (JArr xs) \<Rightarrow>
                 bindE (reconstructChecklist xs 0 bp tm) (\<lambda>xs'.
                 bindE (setProp dat ''items'' (JArr xs')) (\<lambda>d. Inr (Some d)))
             | _ \<Rightarrow> Inl TypeError)
          else Inr dat) = Inr d"
      and keep: "keeps tm (checklistPositions (arrayField dat ''items'') 0 bp)"
      using assms by (simp_all add: reconstructData_def dataPositions_def)
    obtain items where items: "getPropU dat ''items'' = Inr items"
      using run by (auto simp: bindE_def split: sum.splits)
    show ?thesis
    proof (cases "truthyU items")
      case False
      then show ?thesis using run items by (simp add: bindE_def)
    next
      case True
      then obtain xs xs' d' where x: "items = Some (JArr xs)"
        "reconstructChecklist xs 0 bp tm = Inr xs'"
        "setProp dat ''items'' (JArr xs') = Inr d'" "d = Some d'"
        using run items
        by (auto simp: bindE_def split: sum.splits option.splits json.splits)
      obtain dkvs where dkvs: "dat = Some (JObj dkvs)" "map_of dkvs ''items'' = Some (JArr xs)"
        using items x(1) by (cases dat; cases "the dat") (auto simp: getPropU_def)
      have "xs' = xs"
        using keep dkvs by (intro reconstructChecklist_fixed [OF x(2)]) (simp add: arrayField_def)
      then show ?thesis
        using x(3,4) dkvs by (simp add: assign_same)
    qed
  next
    case warning
    then obtain d1 where d1: "updateTextPath dat ''title'' (bp @ ''.data.'' @ ''title'') tm = Inr d1"
      "updateTextPath d1 ''message'' (bp @ ''.data.'' @ ''message'') tm = Inr d"
      and keep: "keeps tm (fieldPositions dat bp [''title'', ''message''])"
      using assms by (auto simp: reconstructData_def dataPositions_def bindE_def split: sum.splits)
    have "d1 = dat"
      using d1(1) keep by (rule field) simp
    then show ?thesis
      using d1(2) keep field [of "''message''" d "[''title'', ''message'']"] by simp
  next
    case other
    then have d: "d = reconstructGenericTextFields dat bp tm"
      and keep: "keeps tm (case dat of
              Some (JObj kvs) \<Rightarrow> genericPositions kvs bp
            | Some (JArr xs) \<Rightarrow> genericPositions (indexed 0 xs) bp
            | _ \<Rightarrow> [])"
      using assms by (simp_all add: reconstructData_def dataPositions_def)
    show ?thesis
    proof (cases dat)
      case None
      then show ?thesis using d by (simp add: reconstructGenericTextFields_def)
    next
      case (Some x)
      show ?thesis
      proof (cases x)
        case (JObj kvs)
        then show ?thesis
          using d Some keep reconstructGeneric_entries_fixed [of tm kvs bp]
          by (simp add: reconstructGenericTextFields_def)
      next
        case (JArr xs)
        then show ?thesis
          using d Some keep reconstructGeneric_entries_fixed [of tm "indexed 0 xs" bp]
          by (simp add: reconstructGenericTextFields_def map_snd_indexed)
      qed (use d Some in \<open>simp_all add: reconstructGenericTextFields_def\<close>)
    qed
  qed
qed

lemma reconstructBlock_fixed:
  assumes "reconstructBlock b i tm = Inr b'" "keeps tm (blockPositions b i)"
  shows "b' = b"
proof (cases b)
  case (JObj kvs)
  then obtain d where d: "reconstructData (map_of kvs ''type'') (map_of kvs ''data'') (blockPathOf i) tm = Inr d"
    "b' = withData kvs d"
    using assms(1) by (auto simp: reconstructBlock_def bindE_def split: sum.splits)
  have "d = map_of kvs ''data''"
    using d(1) assms(2) JObj by (intro reconstructData_fixed) (simp_all add: blockPositions_def)
  then show ?thesis
    using d(2) JObj by (cases "map_of kvs ''data''") (simp_all add: withData_def assign_same)
qed (use assms(1) in \<open>simp_all add: reconstructBlock_def bindE_def\<close>)

lemma reconstructBlocks_keeps:
  "reconstructBlocks bs i tm = Inr bs' \<Longrightarrow> keeps tm (blocksPositions bs i) \<Longrightarrow> bs' = bs"
proof (induction bs arbitrary: i bs')
  case Nil
  then show ?case by simp
next
  case (Cons b bs)
  then obtain b' rest where c: "reconstructBlock b i tm = Inr b'"
    "reconstructBlocks bs (Suc i) tm = Inr rest" "bs' = b' # rest"
    by (auto simp: bindE_def split: sum.splits)
  have k: "keeps tm (blockPositions b i)" "keeps tm (blocksPositions bs (Suc i))"
    using Cons.prems(2) by (simp_all add: keeps_append)
  have "b' = b"
    by (rule reconstructBlock_fixed [OF c(1) k(1)])
  moreover have "rest = bs"
    by (rule Cons.IH [OF c(2) k(2)])
  ultimately show ?case
    using c(3) by simp
qed

lemma rebuildEditorJS_fixed:
  assumes "rebuildEditorJS e tm = Inr r" "keeps tm (editorPositions e)"
  shows "r = e"
proof -
  obtain kvs bs bs' where j: "e = JObj kvs" "map_of kvs ''blocks'' = Some (JArr bs)"
    "reconstructBlocks bs 0 tm = Inr bs'" "r = JObj (assign kvs ''blocks'' (JArr bs'))"
    using assms(1)
    by (auto simp: rebuildEditorJS_def bindE_def split: json.splits option.splits sum.splits)
  have "blocksOf e = bs"
    using j by (simp add: blocksOf_def)
  then have "bs' = bs"
    using assms(2) by (intro reconstructBlocks_keeps [OF j(3)]) (simp add: editorPositions_def)
  then show ?thesis
    using j by (simp add: assign_same)
qed

text \<open>The positions of a GrapeJS component that \<open>reconstructComponent\<close> assigns to when
  their path is in the map: its \<open>content\<close>, the values of its \<open>attributes\<close>, the \<open>value\<close> of
  each trait, and the positions of its child components.\<close>

fun attributeEntries :: "(string \<times> json) list \<Rightarrow> string \<Rightarrow> (string \<times> json option) list" where
  "attributeEntries [] p = []"
| "attributeEntries ((key, v) # kvs) p = (p @ ''.attributes.'' @ key, Some v) # attributeEntries kvs p"

definition attributePositions :: "json \<Rightarrow> string \<Rightarrow> (string \<times> json option) list" where
  "attributePositions attributes p =
     (case attributes of
        JObj kvs \<Rightarrow> attributeEntries kvs p
      | JArr xs \<Rightarrow> attributeEntries (indexed 0 xs) p
      | _ \<Rightarrow> [])"

fun traitPositions :: "json list \<Rightarrow> nat \<Rightarrow> string \<Rightarrow> (string \<times> json option) list" where
  "traitPositions [] k p = []"
| "traitPositions (trait # traits) k p =
     (case trait of
        JObj tkvs \<Rightarrow> [(p @ ''.traits['' @ showNat k @ ''].value'', map_of tkvs ''value'')]
      | _ \<Rightarrow> [])
     @ traitPositions traits (Suc k) p"

function componentPositions :: "json \<Rightarrow> string \<Rightarrow> (string \<times> json option) list"
  and childrenPositions :: "json list \<Rightarrow> nat \<Rightarrow> string \<Rightarrow> (string \<times> json option) list" where
  "componentPositions component p =
     (case component of JObj kvs \<Rightarrow> [(p @ ''.content'', map_of kvs ''content'')] | _ \<Rightarrow> [])
     @ (case getProp component ''attributes'' of
          Inr (Some a) \<Rightarrow> attributePositions a p
        | _ \<Rightarrow> [])
     @ (case getProp component ''traits'' of
          Inr (Some (JArr ts)) \<Rightarrow> traitPositions ts 0 p
        | _ \<Rightarrow> [])
     @ (case getProp component ''components'' of
          Inr (Some (JArr children)) \<Rightarrow> childrenPositions children 0 p
        | _ \<Rightarrow> [])"
| "childrenPositions [] childIndex p = []"
| "childrenPositions (child # children) childIndex p =
     componentPositions child (p @ ''.components['' @ showNat childIndex @ '']'')
     @ childrenPositions children (Suc childIndex) p"
  by pat_completeness auto
termination
  by (relation "measure (\<lambda>x. case x of Inl (c, p) \<Rightarrow> 2 * size c | Inr (cs, i, p) \<Rightarrow> 2 * size_list size cs + 1)")
     (auto dest: size_getProp_children)

declare componentPositions.simps [simp del]

fun componentsPositions :: "json list \<Rightarrow> nat \<Rightarrow> (string \<times> json option) list" where
  "componentsPositions [] index = []"
| "componentsPositions (component # components) index =
     componentPositions component (''['' @ showNat index @ '']'')
     @ componentsPositions components (Suc index)"

definition grapePositions :: "json \<Rightarrow> (string \<times> json option) list" where
  "grapePositions grapeData =
     (case topComponents grapeData of Inr components \<Rightarrow> componentsPositions components 0 | Inl e \<Rightarrow> [])"

lemma bindE_InrE:
  assumes "bindE m f = Inr y"
  obtains x where "m = Inr x" "f x = Inr y"
  using assms by (cases m) (simp_all add: bindE_def)

lemma attributeEntries_fixed:
  "keeps tm (attributeEntries kvs p) \<Longrightarrow>
     map (\<lambda>(key, v). (key, getIfHas tm (p @ ''.attributes.'' @ key) v)) kvs = kvs
     \<and> map (\<lambda>(key, v). getIfHas tm (p @ ''.attributes.'' @ key) v) kvs = map snd kvs"
proof (induction kvs)
  case Nil
  then show ?case by simp
next
  case (Cons kv kvs)
  obtain key v where kv: "kv = (key, v)"
    by (cases kv)
  have k: "\<forall>t. tm (p @ ''.attributes.'' @ key) = Some t \<longrightarrow> v = JStr t"
    "keeps tm (attributeEntries kvs p)"
    using Cons.prems by (simp_all add: kv keeps_Cons)
  have "getIfHas tm (p @ ''.attributes.'' @ key) v = v"
    using k(1) by (cases "tm (p @ ''.attributes.'' @ key)") (simp_all add: getIfHas_def)
  then show ?case
    using Cons.IH [OF k(2)] by (simp add: kv)
qed

lemma reconstructAttributes_fixed:
  assumes "reconstructAttributes a p tm = Inr a'" "keeps tm (attributePositions a p)"
  shows "a' = a"
proof (cases a)
  case (JObj kvs)
  then show ?thesis
    using assms attributeEntries_fixed [of tm kvs p]
    by (simp add: reconstructAttributes_def attributePositions_def)
next
  case (JArr xs)
  then show ?thesis
    using assms attributeEntries_fixed [of tm "indexed 0 xs" p]
    by (simp add: reconstructAttributes_def attributePositions_def map_snd_indexed)
next
  case (JStr s)
  then show ?thesis
    using assms(1) by (simp add: reconstructAttributes_def split: if_splits)
qed (use assms(1) in \<open>simp_all add: reconstructAttributes_def\<close>)

lemma reconstructTraits_fixed:
  "reconstructTraits traits k p tm = Inr traits' \<Longrightarrow> keeps tm (traitPositions traits k p) \<Longrightarrow>
     traits' = traits"
proof (induction traits arbitrary: k traits')
  case Nil
  then show ?case by simp
next
  case (Cons trait traits)
  then obtain trait' rest where c:
    "(case tm (p @ ''.traits['' @ showNat k @ ''].value'') of
        None \<Rightarrow> Inr trait
      | Some t \<Rightarrow> setProp (Some trait) ''value'' (JStr t)) = Inr trait'"
    "reconstructTraits traits (Suc k) p tm = Inr rest" "traits' = trait' # rest"
    by (auto simp: bindE_def split: sum.splits)
  have k: "keeps tm (case trait of
        JObj tkvs \<Rightarrow> [(p @ ''.traits['' @ showNat k @ ''].value'', map_of tkvs ''value'')]
      | _ \<Rightarrow> [])" "keeps tm (traitPositions traits (Suc k) p)"
    using Cons.prems(2) by (simp_all add: keeps_append)
  have "trait' = trait"
  proof (cases "tm (p @ ''.traits['' @ showNat k @ ''].value'')")
    case None
    then show ?thesis using c(1) by simp
  next
    case (Some t)
    then have "setProp (Some trait) ''value'' (JStr t) = Inr trait'"
      using c(1) by simp
    then show ?thesis
    proof (rule setProp_fixed)
      fix tkvs
      assume "trait = JObj tkvs"
      then show "map_of tkvs ''value'' = Some (JStr t)"
        using k(1) Some by (simp add: keeps_Cons)
    qed
  qed
  moreover have "rest = traits"
    by (rule Cons.IH [OF c(2) k(2)])
  ultimately show ?case
    using c(3) by simp
qed

lemma withProp_same: "getProp c k = Inr (Some v) \<Longrightarrow> withProp c k v = c"
  by (cases c) (simp_all add: withProp_def assign_same)

lemma reconstructComponent_fixed:
  "reconstructComponent component p tm = Inr component' \<Longrightarrow>
     keeps tm (componentPositions component p) \<Longrightarrow> component' = component"
  "reconstructChildren children childIndex p tm = Inr children' \<Longrightarrow>
     keeps tm (childrenPositions children childIndex p) \<Longrightarrow> children' = children"
proof (induction component p tm and children childIndex p tm arbitrary: component' and children'
    rule: reconstructComponent_reconstructChildren.induct)
  case (1 component p tm)
  note keep = "1.prems"(2) [unfolded componentPositions.simps [of component p] keeps_append]
  have k1: "keeps tm (case component of JObj kvs \<Rightarrow> [(p @ ''.content'', map_of kvs ''content'')] | _ \<Rightarrow> [])"
    and k2: "keeps tm (case getProp component ''attributes'' of
          Inr (Some a) \<Rightarrow> attributePositions a p | _ \<Rightarrow> [])"
    and k3: "keeps tm (case getProp component ''traits'' of
          Inr (Some (JArr ts)) \<Rightarrow> traitPositions ts 0 p | _ \<Rightarrow> [])"
    and k4: "keeps tm (case getProp component ''components'' of
          Inr (Some (JArr children)) \<Rightarrow> childrenPositions children 0 p | _ \<Rightarrow> [])"
    using keep by simp_all
  from "1.prems"(1) obtain c1 attributes c2 traits c3 where
    s1: "(case tm (p @ ''.content'') of
            None \<Rightarrow> Inr component
          | Some t \<Rightarrow> setProp (Some component) ''content'' (JStr t)) = Inr c1"
    and s2: "getProp component ''attributes'' = Inr attributes"
    and s3: "(case attributes of
              Some a \<Rightarrow> if truthy a
                         then bindE (reconstructAttributes a p tm) (\<lambda>a'. Inr (withProp c1 ''attributes'' a'))
                         else Inr c1
            | None \<Rightarrow> Inr c1) = Inr c2"
    and s4: "getProp component ''traits'' = Inr traits"
    and s5: "(if truthyU traits
            then (case traits of
                    Some (JArr ts) \<Rightarrow>
                      bindE (reconstructTraits ts 0 p tm) (\<lambda>ts'. Inr (withProp c2 ''traits'' (JArr ts')))
                  | _ \<Rightarrow> Inl TypeError)
            else Inr c2) = Inr c3"
    and s6: "(case getProp component ''components'' of
       Inr (Some (JArr children)) \<Rightarrow>
         bindE (reconstructChildren children 0 p tm) (\<lambda>children'.
           Inr (withProp c3 ''components'' (JArr children')))
     | Inr _ \<Rightarrow> Inr c3
     | Inl e \<Rightarrow> Inl e) = Inr component'"
    unfolding reconstructComponent.simps [of component p tm]
    by (elim bindE_InrE)
  have c1: "c1 = component"
  proof (cases "tm (p @ ''.content'')")
    case None
    then show ?thesis using s1 by simp
  next
    case (Some t)
    then have "setProp (Some component) ''content'' (JStr t) = Inr c1"
      using s1 by simp
    then show ?thesis
    proof (rule setProp_fixed)
      fix kvs
      assume "component = JObj kvs"
      then show "map_of kvs ''content'' = Some (JStr t)"
        using k1 Some by (simp add: keeps_Cons)
    qed
  qed
  have c2: "c2 = component"
  proof (cases attributes)
    case None
    then show ?thesis using s3 c1 by simp
  next
    case (Some a)
    show ?thesis
    proof (cases "truthy a")
      case False
      then show ?thesis using s3 c1 Some by simp
    next
      case True
      then obtain a' where a': "reconstructAttributes a p tm = Inr a'" "c2 = withProp c1 ''attributes'' a'"
        using s3 Some by (auto elim: bindE_InrE)
      have "a' = a"
        using a'(1) k2 s2 Some by (intro reconstructAttributes_fixed) simp_all
      then show ?thesis
        using a'(2) c1 s2 Some by (simp add: withProp_same)
    qed
  qed
  have c3: "c3 = component"
  proof (cases "truthyU traits")
    case False
    then show ?thesis using s5 c2 by simp
  next
    case True
    then obtain ts ts' where ts: "traits = Some (JArr ts)" "reconstructTraits ts 0 p tm = Inr ts'"
      "c3 = withProp c2 ''traits'' (JArr ts')"
      using s5 by (auto elim!: bindE_InrE split: option.splits json.splits)
    have "ts' = ts"
      using ts(2) k3 s4 ts(1) by (intro reconstructTraits_fixed) simp_all
    then show ?thesis
      using ts(1,3) c2 s4 by (simp add: withProp_same)
  qed
  show ?case
  proof (cases "\<exists>children. getProp component ''components'' = Inr (Some (JArr children))")
    case True
    then obtain children where ch: "getProp component ''components'' = Inr (Some (JArr children))"
      by blast
    then obtain children' where ch': "reconstructChildren children 0 p tm = Inr children'"
      "component' = withProp c3 ''components'' (JArr children')"
      using s6 by (auto elim: bindE_InrE)
    have "children' = children"
      using "1.IH" [OF ch refl refl ch'(1)] k4 ch by simp
    then show ?thesis
      using ch'(2) c3 ch by (simp add: withProp_same)
  next
    case False
    then show ?thesis
      using s6 c3 by (auto split: sum.splits option.splits json.splits)
  qed
next
  case (2 childIndex p tm)
  then show ?case by simp
next
  case (3 child children childIndex p tm)
  from "3.prems"(1) obtain child' rest where c:
    "reconstructComponent child (p @ ''.components['' @ showNat childIndex @ '']'') tm = Inr child'"
    "reconstructChildren children (Suc childIndex) p tm = Inr rest" "children' = child' # rest"
    by (auto elim!: bindE_InrE)
  have k: "keeps tm (componentPositions child (p @ ''.components['' @ showNat childIndex @ '']''))"
    "keeps tm (childrenPositions children (Suc childIndex) p)"
    using "3.prems"(2) by (simp_all add: keeps_append)
  have "child' = child"
    by (rule "3.IH"(1) [OF c(1) k(1)])
  moreover have "rest = children"
    by (rule "3.IH"(2) [OF c(2) k(2)])
  ultimately show ?case
    using c(3) by simp
qed

lemma reconstructComponents_fixed:
  "reconstructComponents components index tm = Inr components' \<Longrightarrow>
     keeps tm (componentsPositions components index) \<Longrightarrow> components' = components"
proof (induction components arbitrary: index components')
  case Nil
  then show ?case by simp
next
  case (Cons c cs)
  from Cons.prems(1) obtain c' rest where r:
    "reconstructComponent c (''['' @ showNat index @ '']'') tm = Inr c'"
    "reconstructComponents cs (Suc index) tm = Inr rest" "components' = c' # rest"
    by (auto elim!: bindE_InrE)
  have k: "keeps tm (componentPositions c (''['' @ showNat index @ '']''))"
    "keeps tm (componentsPositions cs (Suc index))"
    using Cons.prems(2) by (simp_all add: keeps_append)
  have "c' = c"
    by (rule reconstructComponent_fixed(1) [OF r(1) k(1)])
  moreover have "rest = cs"
    by (rule Cons.IH [OF r(2) k(2)])
  ultimately show ?case
    using r(3) by simp
qed

lemma rebuildGrapeJS_fixed:
  assumes "rebuildGrapeJS g tm = Inr r" "keeps tm (grapePositions g)"
    and "isArray (Some g) \<or> (\<exists>xs. getProp g ''components'' = Inr (Some (JArr xs)))"
  shows "r = g"
proof -
  from assms(1) obtain cs cs' where c: "topComponents g = Inr cs"
    "reconstructComponents cs 0 tm = Inr cs'"
    "r = (if isArray (Some g) then JArr cs' else spreadWithComponents g cs')"
    unfolding rebuildGrapeJS_def by (elim bindE_InrE) (auto split: if_splits)
  have "cs' = cs"
    using assms(2) c(1) by (intro reconstructComponents_fixed [OF c(2)]) (simp add: grapePositions_def)
  show ?thesis
  proof (cases g)
    case (JArr xs)
    then show ?thesis
      using c \<open>cs' = cs\<close> by (simp add: topComponents_def isArray_def)
  next
    case (JObj kvs)
    then obtain xs where xs: "map_of kvs ''components'' = Some (JArr xs)"
      using assms(3) by (auto simp: isArray_def)
    then have "cs = xs"
      using c(1) JObj by (simp add: topComponents_def bindE_def truthyU_def)
    then show ?thesis
      using c(3) \<open>cs' = cs\<close> JObj xs
      by (simp add: isArray_def spreadWithComponents_def assign_same)
  qed (use assms(3) in \<open>simp_all add: isArray_def\<close>)
qed

lemma GrapeJSParser_validate_shape:
  assumes "JSON_parse D = Some g" "GrapeJSParser_validate JSON_parse D"
  shows "isArray (Some g) \<or> (\<exists>xs. getProp g ''components'' = Inr (Some (JArr xs)))"
  using assms
  by (auto simp: GrapeJSParser_validate_def isArray_def split: sum.splits option.splits json.splits)

text \<open>
  A fragment list is faithful to the positions \<open>ps\<close> of a document when every position
  whose path is the path of a fragment holds, as a string, the original text of that
  fragment: \<open>parse\<close> took the text as it stands, and no other position has the path.
\<close>

definition faithful :: "ExtractedText list \<Rightarrow> (string \<times> json option) list \<Rightarrow> bool" where
  "faithful fs ps = (\<forall>f \<in> set fs. \<forall>(q, v) \<in> set ps. q = path f \<longrightarrow> v = Some (JStr (originalText f)))"

definition jsonPositions :: "json \<Rightarrow> (string \<times> json option) list" where
  "jsonPositions j = map (\<lambda>(q, v). (q, Some v)) (positions j [])"

lemma faithful_keeps:
  assumes "faithful fs ps"
  shows "keeps (pathTranslationMap (untranslated fs)) ps"
  unfolding keeps_def
proof (clarify)
  fix q v t
  assume pos: "(q, v) \<in> set ps" and hit: "pathTranslationMap (untranslated fs) q = Some t"
  obtain f where f: "f \<in> set (untranslated fs)" "path f = q" "t = translationOrOriginal f"
    using pathTranslationMap_Some [OF hit] by blast
  then obtain f0 where f0: "f0 \<in> set fs" "path f0 = q" "originalText f0 = t"
    using translationOrOriginal_untranslated [OF f(1)] by (auto simp: untranslated_def)
  show "v = Some (JStr t)"
    using assms pos f0 by (auto simp: faithful_def)
qed

lemma json_round_trip_faithful:
  assumes "faithful fs (jsonPositions j)"
  shows "reconstructObject j [] (pathTranslationMap (untranslated fs)) = j"
proof (rule reconstructObject_fixed(1), clarify)
  fix q v t
  assume "(q, v) \<in> set (positions j [])" "pathTranslationMap (untranslated fs) q = Some t"
  then show "v = JStr t"
    using faithful_keeps [OF assms] by (force simp: keeps_def jsonPositions_def)
qed

subsection \<open>The textual-content filter of the JSON parser\<close>

lemma extractItems_nth:
  "n < length xs \<Longrightarrow>
     set (extractFromObject (xs ! n) (itemPath p (i + n)) (ctx @ '' array item''))
       \<subseteq> set (extractItems xs i p ctx)"
proof (induction xs arbitrary: i n)
  case Nil
  then show ?case by simp
next
  case (Cons x xs)
  show ?case
  proof (cases n)
    case 0
    then show ?thesis by simp
  next
    case (Suc m)
    then show ?thesis
      using Cons.IH [of m "Suc i"] Cons.prems by auto
  qed
qed

lemma extractKeys_member:
  "map_of kvs k = Some v \<Longrightarrow>
     set (extractFromObject v (keyPath p k) (getContextForKey k ctx)) \<subseteq> set (extractKeys kvs p ctx)"
  by (induction kvs) (auto split: if_splits)

lemma extractFromObject_leaf:
  "jget j a = Some (JStr s) \<Longrightarrow> JsonParser_isTextualContent s \<Longrightarrow>
     \<exists>f \<in> set (extractFromObject j p ctx). path f = addrPath p a \<and> originalText f = s"
proof (induction a arbitrary: j p ctx)
  case Nil
  then show ?case by simp
next
  case (Cons st a)
  show ?case
  proof (cases st)
    case (Key k)
    then obtain kvs v where j: "j = JObj kvs" "map_of kvs k = Some v" "jget v a = Some (JStr s)"
      using Cons.prems(1) by (cases j) (auto split: option.splits)
    obtain f where "f \<in> set (extractFromObject v (keyPath p k) (getContextForKey k ctx))"
      "path f = addrPath (keyPath p k) a" "originalText f = s"
      using Cons.IH [OF j(3) Cons.prems(2)] by blast
    then show ?thesis
      using extractKeys_member [OF j(2), of p ctx] j(1) Key by auto
  next
    case (Idx n)
    then obtain xs where j: "j = JArr xs" "n < length xs" "jget (xs ! n) a = Some (JStr s)"
      using Cons.prems(1) by (cases j) (auto split: if_splits)
    obtain f where "f \<in> set (extractFromObject (xs ! n) (itemPath p n) (ctx @ '' array item''))"
      "path f = addrPath (itemPath p n) a" "originalText f = s"
      using Cons.IH [OF j(3) Cons.prems(2)] by blast
    then show ?thesis
      using extractItems_nth [OF j(2), of p 0 ctx] j(1) Idx by auto
  qed
qed

definition leavesText :: string where
  "leavesText = ''{'url':'https://example.com','contact':{'email':'a@b.com','id':'3f9a1c2d'},'notes':[''
                  @ [CHR 0x27, CHR 0x27] @ '','Hi','Premium Wireless Headphones']}''"

definition leavesDocument :: json where
  "leavesDocument =
     JObj [(''url'', JStr ''https://example.com''),
           (''contact'', JObj [(''email'', JStr ''a@b.com''), (''id'', JStr ''3f9a1c2d'')]),
           (''notes'', JArr [JStr [], JStr ''Hi'', JStr ''Premium Wireless Headphones''])]"

text \<open>
  C10. The filter of the generic JSON parser rejects the URL \<open>https://example.com\<close>, the
  e-mail address \<open>a@b.com\<close>, the identifier \<open>3f9a1c2d\<close>, the empty string and the
  two-character string \<open>Hi\<close>. As a string leaf, at any path and in any context, none of
  them produces a fragment, and no fragment that \<open>parse\<close> returns for any document carries
  one of them as its original text. \<open>Premium Wireless Headphones\<close> passes the filter: as
  a string leaf it produces exactly one fragment, and wherever it stands as a string in a
  document, under any keys and indices, \<open>parse\<close> returns a fragment with the path of that
  place and this original text.
\<close>

theorem filter_correctness:
  "\<not> JsonParser_isTextualContent ''https://example.com''
   \<and> \<not> JsonParser_isTextualContent ''a@b.com''
   \<and> \<not> JsonParser_isTextualContent ''3f9a1c2d''
   \<and> \<not> JsonParser_isTextualContent []
   \<and> \<not> JsonParser_isTextualContent ''Hi''
   \<and> JsonParser_isTextualContent ''Premium Wireless Headphones''
   \<and> extractFromObject (JStr ''https://example.com'') p ctx = []
   \<and> extractFromObject (JStr ''a@b.com'') p ctx = []
   \<and> extractFromObject (JStr ''3f9a1c2d'') p ctx = []
   \<and> extractFromObject (JStr []) p ctx = []
   \<and> extractFromObject (JStr ''Hi'') p ctx = []
   \<and> extractFromObject (JStr ''Premium Wireless Headphones'') p ctx =
        [\<lparr>ext_id = p, originalText = ''Premium Wireless Headphones'', translatedText = None,
          path = p, context_of = ctx, ftype = T_text\<rparr>]
   \<and> ''https://example.com'' \<notin> originalText ` set (JsonParser_parse JSON_parse D)
   \<and> ''a@b.com'' \<notin> originalText ` set (JsonParser_parse JSON_parse D)
   \<and> ''3f9a1c2d'' \<notin> originalText ` set (JsonParser_parse JSON_parse D)
   \<and> [] \<notin> originalText ` set (JsonParser_parse JSON_parse D)
   \<and> ''Hi'' \<notin> originalText ` set (JsonParser_parse JSON_parse D)
   \<and> (JSON_parse D = Some j \<and> jget j a = Some (JStr ''Premium Wireless Headphones'')
      \<longrightarrow> (\<exists>f \<in> set (JsonParser_parse JSON_parse D).
             path f = addrPath [] a \<and> originalText f = ''Premium Wireless Headphones''))"
proof -
  have url: "\<not> JsonParser_isTextualContent ''https://example.com''" by code_simp
  have email: "\<not> JsonParser_isTextualContent ''a@b.com''" by code_simp
  have ident: "\<not> JsonParser_isTextualContent ''3f9a1c2d''" by code_simp
  have empty: "\<not> JsonParser_isTextualContent []" by code_simp
  have short: "\<not> JsonParser_isTextualContent ''Hi''" by code_simp
  have name: "JsonParser_isTextualContent ''Premium Wireless Headphones''" by code_simp
  have textual: "JsonParser_isTextualContent (originalText f)" if "f \<in> set (JsonParser_parse JSON_parse D)" for f
    using that extractFromObject_textual(1) [of f]
    by (auto simp: JsonParser_parse_def split: option.splits)
  have none: "s \<notin> originalText ` set (JsonParser_parse JSON_parse D)" if "\<not> JsonParser_isTextualContent s" for s
    using that textual by auto
  have leaf: "\<exists>f \<in> set (JsonParser_parse JSON_parse D).
             path f = addrPath [] a \<and> originalText f = ''Premium Wireless Headphones''"
    if "JSON_parse D = Some j" "jget j a = Some (JStr ''Premium Wireless Headphones'')"
    using that extractFromObject_leaf [OF that(2) name, of "[]" "''JSON''"]
    by (simp add: JsonParser_parse_def)
  have leaves: "extractFromObject (JStr ''https://example.com'') p ctx = []"
    "extractFromObject (JStr ''a@b.com'') p ctx = []"
    "extractFromObject (JStr ''3f9a1c2d'') p ctx = []"
    "extractFromObject (JStr []) p ctx = []"
    "extractFromObject (JStr ''Hi'') p ctx = []"
    "extractFromObject (JStr ''Premium Wireless Headphones'') p ctx =
        [\<lparr>ext_id = p, originalText = ''Premium Wireless Headphones'', translatedText = None,
          path = p, context_of = ctx, ftype = T_text\<rparr>]"
    using url email ident empty short name by simp_all
  show ?thesis
    by (intro conjI impI; (elim conjE)?)
       (rule url email ident empty short name leaves none [OF url] none [OF email] none [OF ident]
          none [OF empty] none [OF short] | erule (1) leaf)+
qed

theorem filter_correctness_witness:
  "map_of [(leavesText, leavesDocument)] leavesText = Some leavesDocument
   \<and> jget leavesDocument [Key ''notes'', Idx 2] = Some (JStr ''Premium Wireless Headphones'')
   \<and> (\<exists>f \<in> set (JsonParser_parse (map_of [(leavesText, leavesDocument)]) leavesText).
         path f = ''notes[2]'' \<and> originalText f = ''Premium Wireless Headphones'')
   \<and> JsonParser_parse (map_of [(leavesText, leavesDocument)]) leavesText
       = [\<lparr>ext_id = ''notes[2]'', originalText = ''Premium Wireless Headphones'',
            translatedText = None, path = ''notes[2]'', context_of = ''JSON notes array item'',
            ftype = T_text\<rparr>]"
proof -
  let ?P = "map_of [(leavesText, leavesDocument)]"
  have parsed: "?P leavesText = Some leavesDocument"
    by simp
  have leaf: "jget leavesDocument [Key ''notes'', Idx 2] = Some (JStr ''Premium Wireless Headphones'')"
    by code_simp
  have addr: "addrPath [] [Key ''notes'', Idx 2] = ''notes[2]''"
    by code_simp
  have found: "\<exists>f \<in> set (JsonParser_parse ?P leavesText).
         path f = ''notes[2]'' \<and> originalText f = ''Premium Wireless Headphones''"
    using filter_correctness [of "[]" "[]" ?P leavesText leavesDocument "[Key ''notes'', Idx 2]"]
      parsed leaf
    unfolding addr by blast
  have "extractFromObject leavesDocument [] ''JSON''
       = [\<lparr>ext_id = ''notes[2]'', originalText = ''Premium Wireless Headphones'',
            translatedText = None, path = ''notes[2]'', context_of = ''JSON notes array item'',
            ftype = T_text\<rparr>]"
    by code_simp
  then have all: "JsonParser_parse ?P leavesText
       = [\<lparr>ext_id = ''notes[2]'', originalText = ''Premium Wireless Headphones'',
            translatedText = None, path = ''notes[2]'', context_of = ''JSON notes array item'',
            ftype = T_text\<rparr>]"
    by (simp add: JsonParser_parse_def)
  show ?thesis
    using parsed leaf found all by blast
qed

subsection \<open>Code fences in Markdown\<close>

definition codeFenceDocument :: string where
  "codeFenceDocument =
     ''# Title'' @ [CHR 0x0A] @ fence @ [CHR 0x0A] @ ''# not a header'' @ [CHR 0x0A] @ fence @ [CHR 0x0A]"

text \<open>
  C9. Parsing the Markdown document with the lines \<open># Title\<close>, a code fence,
  \<open># not a header\<close>, a code fence and an empty last line yields exactly one fragment,
  the header of line 0 with the original text \<open>Title\<close>. The line \<open># not a header\<close>
  yields nothing while the code-block state is active, although the same line outside a
  code block is a header.
\<close>

theorem code_fence_exclusion:
  "MarkdownParser_parse codeFenceDocument =
     [\<lparr>ext_id = ''line_0_header'', originalText = ''Title'', translatedText = None,
       path = ''line_0_header'', context_of = ''H1 header'', ftype = T_text\<rparr>]
   \<and> parseLines [''# not a header''] 2 True fence = []
   \<and> map originalText (parseLines [''# not a header''] 2 False []) = [''not a header'']"
proof -
  have whole: "MarkdownParser_parse codeFenceDocument =
     [\<lparr>ext_id = ''line_0_header'', originalText = ''Title'', translatedText = None,
       path = ''line_0_header'', context_of = ''H1 header'', ftype = T_text\<rparr>]"
    by code_simp
  have inside: "parseLines [''# not a header''] 2 True fence = []"
    by code_simp
  have outside: "map originalText (parseLines [''# not a header''] 2 False []) = [''not a header'']"
    by code_simp
  show ?thesis
    using whole inside outside by simp
qed

subsection \<open>Detection order of the registry\<close>

text \<open>In the examples \<open>JSON.parse\<close> is the table of the texts it is applied to, and
  \<open>JSON.stringify\<close> the table of the documents it prints; the texts are written with
  single quotes.\<close>

definition printTable :: "(json \<times> string) list \<Rightarrow> json \<Rightarrow> string" where
  "printTable table j = (case map_of table j of None \<Rightarrow> [] | Some s \<Rightarrow> s)"

definition editorJSParser :: "(string \<Rightarrow> json option) \<Rightarrow> ContentParser" where
  "editorJSParser JSON_parse = \<lparr>parser_type = EDITOR_JS, validate = EditorJSParser_validate JSON_parse\<rparr>"

definition grapeJSParser :: "(string \<Rightarrow> json option) \<Rightarrow> ContentParser" where
  "grapeJSParser JSON_parse = \<lparr>parser_type = GRAPE_JS, validate = GrapeJSParser_validate JSON_parse\<rparr>"

definition jsonParser :: "(string \<Rightarrow> json option) \<Rightarrow> ContentParser" where
  "jsonParser JSON_parse = \<lparr>parser_type = JSON, validate = JsonParser_validate JSON_parse\<rparr>"

text \<open>A small \<open>JSON.parse\<close> for the examples: it knows two documents, written here with
  single quotes, and throws on every other string.\<close>

definition bothDocument :: string where
  "bothDocument = ''{'blocks':[],'components':[]}''"

definition exampleParse :: "string \<Rightarrow> json option" where
  "exampleParse s =
     (if s = bothDocument then Some (JObj [(''blocks'', JArr []), (''components'', JArr [])])
      else if s = ''{'name':'Premium Wireless Headphones'}''
           then Some (JObj [(''name'', JStr ''Premium Wireless Headphones'')])
      else None)"

text \<open>
  C2, as the claim states it, fails on a document that both structural detectors accept:
  an object with a \<open>blocks\<close> array and a \<open>components\<close> array is accepted by the GrapeJS
  detector, and \<open>getParser\<close> returns the Editor.js parser, which comes first.
\<close>

theorem getParser_overlap_counterexample:
  "GrapeJSParser_validate exampleParse bothDocument
   \<and> getParser (parsers exampleParse) bothDocument \<noteq> Some (grapeJSParser exampleParse)"
proof -
  have g: "GrapeJSParser_validate exampleParse bothDocument"
    by (simp add: GrapeJSParser_validate_def exampleParse_def isArray_def truthyU_def)
  have e: "EditorJSParser_validate exampleParse bothDocument"
    by (simp add: EditorJSParser_validate_def exampleParse_def isArray_def)
  have "getParser (parsers exampleParse) bothDocument = Some (editorJSParser exampleParse)"
    using e by (simp add: parsers_def editorJSParser_def)
  moreover have "editorJSParser exampleParse \<noteq> grapeJSParser exampleParse"
    by (simp add: editorJSParser_def grapeJSParser_def)
  ultimately show ?thesis using g by simp
qed

text \<open>
  C2, amended. On the registry with any parsers registered later: when the Editor.js
  detector accepts the content, \<open>getParser\<close> returns the Editor.js parser; when the GrapeJS
  detector accepts it and the Editor.js detector does not, \<open>getParser\<close> returns the GrapeJS
  parser; so whenever one of the two accepts, the result is one of these two structural
  parsers and not the generic JSON parser.
\<close>

theorem getParser_structural_first:
  "(EditorJSParser_validate JSON_parse content \<longrightarrow>
      getParser (parsers JSON_parse @ registered) content = Some (editorJSParser JSON_parse))
   \<and> (GrapeJSParser_validate JSON_parse content \<and> \<not> EditorJSParser_validate JSON_parse content \<longrightarrow>
      getParser (parsers JSON_parse @ registered) content = Some (grapeJSParser JSON_parse))
   \<and> (EditorJSParser_validate JSON_parse content \<or> GrapeJSParser_validate JSON_parse content \<longrightarrow>
      getParser (parsers JSON_parse @ registered) content \<noteq> Some (jsonParser JSON_parse)
      \<and> getParser (parsers JSON_parse @ registered) content \<noteq> None)"
proof -
  have types: "editorJSParser JSON_parse \<noteq> jsonParser JSON_parse"
    "grapeJSParser JSON_parse \<noteq> jsonParser JSON_parse"
    by (simp_all add: editorJSParser_def grapeJSParser_def jsonParser_def)
  show ?thesis
    using types by (auto simp: parsers_def editorJSParser_def grapeJSParser_def)
qed

theorem getParser_structural_first_witness:
  "EditorJSParser_validate exampleParse bothDocument
   \<and> GrapeJSParser_validate exampleParse bothDocument
   \<and> getParser (parsers exampleParse @ []) bothDocument = Some (editorJSParser exampleParse)
   \<and> getParser (parsers exampleParse @ []) bothDocument \<noteq> Some (jsonParser exampleParse)"
proof -
  have e: "EditorJSParser_validate exampleParse bothDocument"
    by (simp add: EditorJSParser_validate_def exampleParse_def isArray_def)
  have g: "GrapeJSParser_validate exampleParse bothDocument"
    by (simp add: GrapeJSParser_validate_def exampleParse_def isArray_def truthyU_def)
  show ?thesis
    using e g getParser_structural_first [of exampleParse bothDocument "[]"] by blast
qed

subsection \<open>A document that does not parse\<close>

text \<open>A text that is JSON but no GrapeJS document, the document \<open>JSON.parse\<close> returns for
  it, and what \<open>reconstruct\<close> prints.\<close>

definition plainObjectText :: string where
  "plainObjectText = ''{'a':1}''"

definition plainObject :: json where
  "plainObject = JObj [(''a'', JNum ''1'')]"

definition plainObjectRebuilt :: json where
  "plainObjectRebuilt = JObj [(''a'', JNum ''1''), (''components'', JArr [])]"

definition plainObjectRebuiltText :: string where
  "plainObjectRebuiltText = ''{'a':1,'components':[]}''"

text \<open>
  The text \<open>plainObjectText\<close> is JSON, but not in the format of the GrapeJS parser: it is
  neither an array nor an object with a \<open>components\<close> array, and \<open>validate\<close> rejects it.
  \<open>reconstruct\<close> of the GrapeJS parser does not return it as it is: with
  \<open>grapeData.components || []\<close> it walks no component and prints the object with the key
  \<open>components\<close> added, also for the empty fragment list.
\<close>

theorem grapeJS_reconstruct_counterexample:
  "map_of [(plainObjectText, plainObject)] plainObjectText = Some plainObject
   \<and> \<not> GrapeJSParser_validate (map_of [(plainObjectText, plainObject)]) plainObjectText
   \<and> GrapeJSParser_reconstruct (map_of [(plainObjectText, plainObject)])
         (printTable [(plainObjectRebuilt, plainObjectRebuiltText)]) plainObjectText []
       = plainObjectRebuiltText
   \<and> plainObjectRebuiltText \<noteq> plainObjectText"
proof -
  let ?P = "map_of [(plainObjectText, plainObject)]"
  have parsed: "?P plainObjectText = Some plainObject"
    by simp
  have invalid: "\<not> GrapeJSParser_validate ?P plainObjectText"
    unfolding GrapeJSParser_validate_def parsed
    by (simp add: plainObject_def isArray_def truthyU_def)
  have rebuilt: "rebuildGrapeJS plainObject (pathTranslationMap []) = Inr plainObjectRebuilt"
    by code_simp
  have printed: "GrapeJSParser_reconstruct ?P (printTable [(plainObjectRebuilt, plainObjectRebuiltText)])
      plainObjectText [] = plainObjectRebuiltText"
    unfolding GrapeJSParser_reconstruct_def parsed
    by (simp add: rebuilt printTable_def)
  have differ: "plainObjectRebuiltText \<noteq> plainObjectText"
    by (simp add: plainObjectRebuiltText_def plainObjectText_def)
  show ?thesis
    using parsed invalid printed differ by blast
qed

lemma rebuildEditorJS_invalid:
  assumes "JSON_parse D = Some e" "\<not> EditorJSParser_validate JSON_parse D"
  shows "\<exists>x. rebuildEditorJS e tm = Inl x"
proof (cases e)
  case (JObj kvs)
  then have "\<not> isArray (map_of kvs ''blocks'')"
    using assms by (simp add: EditorJSParser_validate_def)
  then show ?thesis
    using JObj
    by (auto simp: rebuildEditorJS_def isArray_def split: option.splits json.splits)
qed (simp_all add: rebuildEditorJS_def)

text \<open>
  C8. \<open>reconstruct\<close> of the JSON parser, of the Editor.js parser and of the GrapeJS parser
  returns a string for every original content and every fragment list, and that string
  is the original content as it is
  \<^item> when \<open>JSON.parse\<close> throws on the original content, for each of the three;
  \<^item> when the content is not in the format of the parser, that is when its \<open>validate\<close>
    rejects it, for the JSON parser and for the Editor.js parser;
  \<^item> when the rebuild of the parsed document throws, for the Editor.js parser and for the
    GrapeJS parser.

  The GrapeJS parser does not return every content that its \<open>validate\<close> rejects: where the
  parsed value is no array and its \<open>components\<close> is missing or falsy, it prints the value
  as an object with an empty \<open>components\<close> array.
\<close>

theorem reconstruct_unparsable:
  "(JSON_parse originalContent = None \<longrightarrow>
      JsonParser_reconstruct JSON_parse JSON_stringify originalContent fragments = originalContent
      \<and> EditorJSParser_reconstruct JSON_parse JSON_stringify originalContent fragments = originalContent
      \<and> GrapeJSParser_reconstruct JSON_parse JSON_stringify originalContent fragments = originalContent)
   \<and> (\<not> JsonParser_validate JSON_parse originalContent \<longrightarrow>
      JsonParser_reconstruct JSON_parse JSON_stringify originalContent fragments = originalContent)
   \<and> (\<not> EditorJSParser_validate JSON_parse originalContent \<longrightarrow>
      EditorJSParser_reconstruct JSON_parse JSON_stringify originalContent fragments = originalContent)
   \<and> (JSON_parse originalContent = Some parsed
        \<and> rebuildEditorJS parsed (pathTranslationMap fragments) = Inl x \<longrightarrow>
      EditorJSParser_reconstruct JSON_parse JSON_stringify originalContent fragments = originalContent)
   \<and> (JSON_parse originalContent = Some parsed
        \<and> rebuildGrapeJS parsed (pathTranslationMap fragments) = Inl x \<longrightarrow>
      GrapeJSParser_reconstruct JSON_parse JSON_stringify originalContent fragments = originalContent)
   \<and> (JSON_parse originalContent = Some parsed \<and> \<not> isArray (Some parsed)
        \<and> getProp parsed ''components'' = Inr c \<and> \<not> truthyU c \<longrightarrow>
      GrapeJSParser_reconstruct JSON_parse JSON_stringify originalContent fragments
        = JSON_stringify (JObj (assign (ownEntries parsed) ''components'' (JArr []))))"
proof -
  have throws: "JSON_parse originalContent = None \<longrightarrow>
      JsonParser_reconstruct JSON_parse JSON_stringify originalContent fragments = originalContent
      \<and> EditorJSParser_reconstruct JSON_parse JSON_stringify originalContent fragments = originalContent
      \<and> GrapeJSParser_reconstruct JSON_parse JSON_stringify originalContent fragments = originalContent"
    by (simp add: JsonParser_reconstruct_def EditorJSParser_reconstruct_def GrapeJSParser_reconstruct_def)
  have json: "\<not> JsonParser_validate JSON_parse originalContent \<longrightarrow>
      JsonParser_reconstruct JSON_parse JSON_stringify originalContent fragments = originalContent"
    by (simp add: JsonParser_validate_def JsonParser_reconstruct_def)
  have editor: "EditorJSParser_reconstruct JSON_parse JSON_stringify originalContent fragments = originalContent"
    if invalid: "\<not> EditorJSParser_validate JSON_parse originalContent"
  proof (cases "JSON_parse originalContent")
    case None
    then show ?thesis
      by (simp add: EditorJSParser_reconstruct_def)
  next
    case (Some e)
    then obtain y where "rebuildEditorJS e (pathTranslationMap fragments) = Inl y"
      using rebuildEditorJS_invalid [OF Some invalid] by blast
    then show ?thesis
      using Some by (simp add: EditorJSParser_reconstruct_def)
  qed
  have walkE: "JSON_parse originalContent = Some parsed
        \<and> rebuildEditorJS parsed (pathTranslationMap fragments) = Inl x \<longrightarrow>
      EditorJSParser_reconstruct JSON_parse JSON_stringify originalContent fragments = originalContent"
    by (simp add: EditorJSParser_reconstruct_def)
  have walkG: "JSON_parse originalContent = Some parsed
        \<and> rebuildGrapeJS parsed (pathTranslationMap fragments) = Inl x \<longrightarrow>
      GrapeJSParser_reconstruct JSON_parse JSON_stringify originalContent fragments = originalContent"
    by (simp add: GrapeJSParser_reconstruct_def)
  have added: "GrapeJSParser_reconstruct JSON_parse JSON_stringify originalContent fragments
        = JSON_stringify (JObj (assign (ownEntries parsed) ''components'' (JArr [])))"
    if "JSON_parse originalContent = Some parsed" "\<not> isArray (Some parsed)"
      "getProp parsed ''components'' = Inr c" "\<not> truthyU c"
  proof -
    have "topComponents parsed = Inr []"
      using that(2,3,4) by (cases parsed) (simp_all add: topComponents_def isArray_def bindE_def)
    then have "rebuildGrapeJS parsed (pathTranslationMap fragments)
        = Inr (JObj (assign (ownEntries parsed) ''components'' (JArr [])))"
      using that(2) by (simp add: rebuildGrapeJS_def bindE_def spreadWithComponents_def)
    then show ?thesis
      using that(1) by (simp add: GrapeJSParser_reconstruct_def)
  qed
  show ?thesis
    using throws json editor walkE walkG added by blast
qed

text \<open>Documents on which the rebuild throws: a block that is \<open>null\<close>, a component that is
  \<open>null\<close>.\<close>

definition nullBlockDocument :: json where
  "nullBlockDocument = JObj [(''blocks'', JArr [JNull])]"

definition nullComponentDocument :: json where
  "nullComponentDocument = JArr [JNull]"

theorem reconstruct_unparsable_witness:
  "exampleParse ''{not json'' = None
   \<and> JsonParser_reconstruct exampleParse (\<lambda>j. ''{}'') ''{not json'' [] = ''{not json''
   \<and> EditorJSParser_reconstruct exampleParse (\<lambda>j. ''{}'') ''{not json'' [] = ''{not json''
   \<and> GrapeJSParser_reconstruct exampleParse (\<lambda>j. ''{}'') ''{not json'' [] = ''{not json''
   \<and> \<not> EditorJSParser_validate (map_of [(plainObjectText, plainObject)]) plainObjectText
   \<and> EditorJSParser_reconstruct (map_of [(plainObjectText, plainObject)]) (\<lambda>j. ''{}'')
         plainObjectText [] = plainObjectText
   \<and> rebuildEditorJS nullBlockDocument (pathTranslationMap []) = Inl TypeError
   \<and> EditorJSParser_reconstruct (map_of [(''{'blocks':[null]}'', nullBlockDocument)]) (\<lambda>j. ''{}'')
         ''{'blocks':[null]}'' [] = ''{'blocks':[null]}''
   \<and> rebuildGrapeJS nullComponentDocument (pathTranslationMap []) = Inl TypeError
   \<and> GrapeJSParser_reconstruct (map_of [(''[null]'', nullComponentDocument)]) (\<lambda>j. ''{}'')
         ''[null]'' [] = ''[null]''
   \<and> GrapeJSParser_reconstruct (map_of [(plainObjectText, plainObject)])
         (printTable [(plainObjectRebuilt, plainObjectRebuiltText)]) plainObjectText []
       = plainObjectRebuiltText"
proof -
  let ?P = "map_of [(plainObjectText, plainObject)]"
  let ?S = "\<lambda>j::json. ''{}''"
  have h: "exampleParse ''{not json'' = None"
    by (simp add: exampleParse_def bothDocument_def)
  note T = reconstruct_unparsable [of exampleParse "''{not json''" ?S "[]"]
  have c1: "JsonParser_reconstruct exampleParse ?S ''{not json'' [] = ''{not json''
      \<and> EditorJSParser_reconstruct exampleParse ?S ''{not json'' [] = ''{not json''
      \<and> GrapeJSParser_reconstruct exampleParse ?S ''{not json'' [] = ''{not json''"
    using T [THEN conjunct1] h by blast
  have parsed: "?P plainObjectText = Some plainObject"
    by simp
  have invalid: "\<not> EditorJSParser_validate ?P plainObjectText"
    unfolding EditorJSParser_validate_def parsed
    by (simp add: plainObject_def isArray_def)
  have c2: "EditorJSParser_reconstruct ?P ?S plainObjectText [] = plainObjectText"
    using reconstruct_unparsable [of ?P plainObjectText ?S "[]", THEN conjunct2, THEN conjunct2, THEN conjunct1]
      invalid by blast
  have nb: "rebuildEditorJS nullBlockDocument (pathTranslationMap []) = Inl TypeError"
    by code_simp
  have c3: "EditorJSParser_reconstruct (map_of [(''{'blocks':[null]}'', nullBlockDocument)]) ?S
         ''{'blocks':[null]}'' [] = ''{'blocks':[null]}''"
    using reconstruct_unparsable [of "map_of [(''{'blocks':[null]}'', nullBlockDocument)]"
        "''{'blocks':[null]}''" ?S "[]" nullBlockDocument TypeError,
        THEN conjunct2, THEN conjunct2, THEN conjunct2, THEN conjunct1] nb
    by simp
  have nc: "rebuildGrapeJS nullComponentDocument (pathTranslationMap []) = Inl TypeError"
    by code_simp
  have c4: "GrapeJSParser_reconstruct (map_of [(''[null]'', nullComponentDocument)]) ?S
         ''[null]'' [] = ''[null]''"
    using reconstruct_unparsable [of "map_of [(''[null]'', nullComponentDocument)]"
        "''[null]''" ?S "[]" nullComponentDocument TypeError,
        THEN conjunct2, THEN conjunct2, THEN conjunct2, THEN conjunct2, THEN conjunct1] nc
    by simp
  have comp: "\<not> isArray (Some plainObject)" "getProp plainObject ''components'' = Inr None"
    "\<not> truthyU None"
    by (simp_all add: plainObject_def isArray_def truthyU_def)
  have same: "JObj (assign (ownEntries plainObject) ''components'' (JArr [])) = plainObjectRebuilt"
    by (simp add: plainObject_def plainObjectRebuilt_def)
  have c5: "GrapeJSParser_reconstruct ?P (printTable [(plainObjectRebuilt, plainObjectRebuiltText)])
      plainObjectText [] = plainObjectRebuiltText"
    using reconstruct_unparsable [of ?P plainObjectText
        "printTable [(plainObjectRebuilt, plainObjectRebuiltText)]" "[]" plainObject TypeError None,
        THEN conjunct2, THEN conjunct2, THEN conjunct2, THEN conjunct2, THEN conjunct2]
      parsed comp
    unfolding same by (simp add: printTable_def)
  show ?thesis
    using h c1 invalid c2 nb c3 nc c4 c5 by blast
qed

subsection \<open>Batched translation\<close>

lemma fillSlots_length: "length (fillSlots vals ks slots) = length slots"
  by (induction ks arbitrary: slots) auto

lemma fillSlots_nth:
  assumes "length slots = length vals" "j < length vals"
  shows "fillSlots vals ks slots ! j = (if j \<in> set ks then Some (vals ! j) else slots ! j)"
  using assms
proof (induction ks arbitrary: slots)
  case Nil
  then show ?case by simp
next
  case (Cons k ks)
  then show ?case by (auto simp: nth_list_update)
qed

lemma promiseAll_complete:
  assumes "\<forall>j < length vals. j \<in> set completionOrder"
  shows "promiseAll vals completionOrder = Some vals"
proof -
  let ?slots = "fillSlots vals completionOrder (replicate (length vals) None)"
  have len: "length ?slots = length vals"
    by (simp add: fillSlots_length)
  have nth: "?slots ! j = Some (vals ! j)" if "j < length vals" for j
    using that assms by (simp add: fillSlots_nth)
  have eq: "?slots = map Some vals"
    by (rule nth_equalityI) (simp_all add: len nth)
  show ?thesis
    unfolding promiseAll_def Let_def eq by (auto simp: comp_def)
qed

lemma translateLoop_complete:
  assumes "allComplete completion (length xs)"
  shows "translateLoop post_request src tgt completion xs i results =
           Some (results @ map (\<lambda>k. translateOne post_request src tgt k (xs ! k)) [i ..< length xs])"
  using assms
proof (induction post_request src tgt completion xs i results rule: translateLoop.induct)
  case (1 post_request src tgt completion xs i results)
  show ?case
  proof (cases "i < length xs")
    case False
    then show ?thesis by (simp add: translateLoop.simps [of _ _ _ _ xs i])
  next
    case True
    let ?hi = "min (i + batchSize) (length xs)"
    let ?batch = "map (\<lambda>k. translateOne post_request src tgt k (xs ! k)) [i ..< ?hi]"
    have bound: "j < min batchSize (length xs - i)" if "j < length ?batch" for j
      using that by (auto simp: min_def split: if_splits)
    have "\<forall>j < length ?batch. j \<in> set (completion i)"
      using "1.prems" True bound unfolding allComplete_def by blast
    then have pa: "promiseAll ?batch (completion i) = Some ?batch"
      by (rule promiseAll_complete)
    have split: "[i ..< length xs] = [i ..< ?hi] @ [?hi ..< length xs]"
      using True upt_add_eq_append [of i ?hi "length xs - ?hi"] by (simp add: min_def)
    have rest: "[i + batchSize ..< length xs] = [?hi ..< length xs]"
      by (cases "i + batchSize \<le> length xs") (simp_all add: min_def)
    have "translateLoop post_request src tgt completion xs i results =
            translateLoop post_request src tgt completion xs (i + batchSize) (results @ ?batch)"
      using True pa by (subst translateLoop.simps) simp
    also have "\<dots> = Some ((results @ ?batch)
                 @ map (\<lambda>k. translateOne post_request src tgt k (xs ! k)) [i + batchSize ..< length xs])"
      using "1.IH" [OF True pa "1.prems"] by simp
    finally show ?thesis
      by (simp add: rest) (metis split map_append)
  qed
qed

lemma translateExtractedTexts_complete:
  assumes "allComplete completion (length xs)"
  shows "translateExtractedTexts post_request completion xs src tgt =
           Some (map (\<lambda>k. translateOne post_request src tgt k (xs ! k)) [0 ..< length xs])"
  using translateLoop_complete [OF assms, of post_request src tgt 0 "[]"]
  by (simp add: translateExtractedTexts_def)

lemma translateOne_frame:
  "translateOne post_request src tgt k x = x\<lparr>translatedText := translatedText (translateOne post_request src tgt k x)\<rparr>"
  by (simp add: translateOne_def split: sum.splits option.splits)

text \<open>Three fragments and a service for the examples: the service rejects the request
  for \<open>Two\<close> and answers the others with the text in capital letters of a fixed table.\<close>

definition exampleFragments :: "ExtractedText list" where
  "exampleFragments =
     [mkFragment ''blocks[0].data.text'' ''One'' ''header block'' T_text,
      mkFragment ''blocks[1].data.text'' ''Two'' ''paragraph block'' T_text,
      mkFragment ''blocks[2].data.caption'' ''Three'' ''image caption'' T_text]"

definition exampleAnswer :: "NewTranslation \<Rightarrow> string \<Rightarrow> Translation" where
  "exampleAnswer request text =
     \<lparr>t_sourceText = t_sourceText request, t_translatedText = text,
      t_sourceLanguage = t_sourceLanguage request, t_targetLanguage = t_targetLanguage request,
      t_context = t_context request, t_status = COMPLETED, t_provider = DEEPL,
      t_contentType = PLAIN_TEXT, t_metadata = t_metadata request,
      t_id = ''1'', t_createdAt = ''2024-01-01'', t_updatedAt = ''2024-01-01''\<rparr>"

definition examplePost :: "nat \<Rightarrow> NewTranslation \<Rightarrow> string + ApiResponse" where
  "examplePost k request =
     (if t_sourceText request = ''Two'' then Inl ''Network Error''
      else Inr \<lparr>resp_success = True,
                resp_data = Some (exampleAnswer request (if t_sourceText request = ''One'' then ''Uno'' else ''Tres'')),
                resp_error = None\<rparr>)"

text \<open>
  C7. When every request completes, in whatever order within each batch, the batched
  translation returns a list of the length of the input in which position \<open>i\<close> holds the
  input fragment \<open>i\<close> with only \<open>translatedText\<close> set.
\<close>

theorem translateExtractedTexts_positional:
  assumes "allComplete completion (length extractedTexts)"
  shows "\<exists>results.
           translateExtractedTexts post_request completion extractedTexts src tgt = Some results
           \<and> length results = length extractedTexts
           \<and> (\<forall>i < length extractedTexts.
                 translatedText (results ! i) \<noteq> None
                 \<and> results ! i = (extractedTexts ! i)\<lparr>translatedText := translatedText (results ! i)\<rparr>)"
proof -
  let ?results = "map (\<lambda>k. translateOne post_request src tgt k (extractedTexts ! k))
                    [0 ..< length extractedTexts]"
  have run: "translateExtractedTexts post_request completion extractedTexts src tgt = Some ?results"
    by (rule translateExtractedTexts_complete [OF assms])
  have set: "translatedText (translateOne post_request src tgt k x) \<noteq> None" for k x
    by (simp add: translateOne_def split: sum.splits option.splits)
  have "\<forall>i < length extractedTexts.
          translatedText (?results ! i) \<noteq> None
          \<and> ?results ! i = (extractedTexts ! i)\<lparr>translatedText := translatedText (?results ! i)\<rparr>"
    using set translateOne_frame by simp
  then show ?thesis
    using run by simp
qed

theorem translateExtractedTexts_positional_witness:
  "allComplete (\<lambda>i. [2, 0, 1]) (length exampleFragments)
   \<and> (\<exists>results.
         translateExtractedTexts examplePost (\<lambda>i. [2, 0, 1]) exampleFragments ''en'' ''es'' = Some results
         \<and> length results = length exampleFragments
         \<and> (\<forall>i < length exampleFragments.
               translatedText (results ! i) \<noteq> None
               \<and> results ! i = (exampleFragments ! i)\<lparr>translatedText := translatedText (results ! i)\<rparr>))"
proof -
  have h: "allComplete (\<lambda>i. [2, 0, 1]) (length exampleFragments)"
    by (auto simp: allComplete_def exampleFragments_def)
  show ?thesis
    using h translateExtractedTexts_positional [OF h, of examplePost "''en''" "''es''"] by blast
qed

text \<open>
  C4. When the call for one fragment \<open>j\<close> throws and the calls for the other fragments
  return a translation, the batched translation still returns one result for every
  fragment: the result at \<open>j\<close> is fragment \<open>j\<close> with its original text as the translated
  text, the others carry the translations the service returned. The result is a list in
  every case: no exception leaves \<open>translateExtractedTexts\<close>.
\<close>

theorem batch_fault_isolation:
  assumes "allComplete completion (length extractedTexts)"
    and "j < length extractedTexts"
    and "createTranslation (post_request j) (translationRequest (extractedTexts ! j) src tgt) = Inl e"
    and "\<forall>i < length extractedTexts. i \<noteq> j \<longrightarrow>
           createTranslation (post_request i) (translationRequest (extractedTexts ! i) src tgt)
             = Inr (Some (answer i))"
  shows "\<exists>results.
           translateExtractedTexts post_request completion extractedTexts src tgt = Some results
           \<and> length results = length extractedTexts
           \<and> results ! j = (extractedTexts ! j)\<lparr>translatedText := Some (originalText (extractedTexts ! j))\<rparr>
           \<and> (\<forall>i < length extractedTexts. i \<noteq> j \<longrightarrow>
                 results ! i = (extractedTexts ! i)\<lparr>translatedText := Some (t_translatedText (answer i))\<rparr>)"
proof -
  let ?results = "map (\<lambda>k. translateOne post_request src tgt k (extractedTexts ! k))
                    [0 ..< length extractedTexts]"
  have run: "translateExtractedTexts post_request completion extractedTexts src tgt = Some ?results"
    by (rule translateExtractedTexts_complete [OF assms(1)])
  have failed: "?results ! j = (extractedTexts ! j)\<lparr>translatedText := Some (originalText (extractedTexts ! j))\<rparr>"
    using assms(2,3) by (simp add: translateOne_def)
  have others: "\<forall>i < length extractedTexts. i \<noteq> j \<longrightarrow>
                  ?results ! i = (extractedTexts ! i)\<lparr>translatedText := Some (t_translatedText (answer i))\<rparr>"
    using assms(4) by (simp add: translateOne_def)
  show ?thesis
    using run failed others by simp
qed

theorem batch_fault_isolation_witness:
  "allComplete (\<lambda>i. [2, 0, 1]) (length exampleFragments)
   \<and> (1::nat) < length exampleFragments
   \<and> createTranslation (examplePost 1) (translationRequest (exampleFragments ! 1) ''en'' ''es'')
       = Inl ''Network Error''
   \<and> (\<exists>results.
         translateExtractedTexts examplePost (\<lambda>i. [2, 0, 1]) exampleFragments ''en'' ''es'' = Some results
         \<and> length results = length exampleFragments
         \<and> results ! 1 = (exampleFragments ! 1)\<lparr>translatedText := Some ''Two''\<rparr>
         \<and> results ! 0 = (exampleFragments ! 0)\<lparr>translatedText := Some ''Uno''\<rparr>
         \<and> results ! 2 = (exampleFragments ! 2)\<lparr>translatedText := Some ''Tres''\<rparr>)"
proof -
  let ?answer = "\<lambda>i. exampleAnswer (translationRequest (exampleFragments ! i) ''en'' ''es'')
                        (if i = 0 then ''Uno'' else ''Tres'')"
  have h1: "allComplete (\<lambda>i. [2, 0, 1]) (length exampleFragments)"
    by (auto simp: allComplete_def exampleFragments_def)
  have h2: "(1::nat) < length exampleFragments"
    by (simp add: exampleFragments_def)
  have h3: "createTranslation (examplePost 1) (translationRequest (exampleFragments ! 1) ''en'' ''es'')
              = Inl ''Network Error''"
    by (simp add: createTranslation_def examplePost_def translationRequest_def exampleFragments_def
        mkFragment_def)
  have h4: "\<forall>i < length exampleFragments. i \<noteq> 1 \<longrightarrow>
              createTranslation (examplePost i) (translationRequest (exampleFragments ! i) ''en'' ''es'')
                = Inr (Some (?answer i))"
    by (auto simp: createTranslation_def examplePost_def translationRequest_def exampleFragments_def
        mkFragment_def less_Suc_eq numeral_3_eq_3)
  obtain results where r:
    "translateExtractedTexts examplePost (\<lambda>i. [2, 0, 1]) exampleFragments ''en'' ''es'' = Some results"
    "length results = length exampleFragments"
    "results ! 1 = (exampleFragments ! 1)\<lparr>translatedText := Some (originalText (exampleFragments ! 1))\<rparr>"
    "\<forall>i < length exampleFragments. i \<noteq> 1 \<longrightarrow>
       results ! i = (exampleFragments ! i)\<lparr>translatedText := Some (t_translatedText (?answer i))\<rparr>"
    using batch_fault_isolation [OF h1 h2 h3 h4] by blast
  have orig: "originalText (exampleFragments ! 1) = ''Two''"
    by (simp add: exampleFragments_def mkFragment_def)
  have r0: "results ! 0 = (exampleFragments ! 0)\<lparr>translatedText := Some ''Uno''\<rparr>"
    using r(4) by (simp add: exampleFragments_def exampleAnswer_def)
  have r2: "results ! 2 = (exampleFragments ! 2)\<lparr>translatedText := Some ''Tres''\<rparr>"
    using r(4) by (simp add: exampleFragments_def exampleAnswer_def)
  show ?thesis
    using h1 h2 h3 r(1,2,3) orig r0 r2 by simp
qed

subsection \<open>Retries of the backend adapter\<close>

lemma retryLoop_success:
  assumes "attempt \<le> n" "int n \<le> maxRetries"
    and "\<forall>k. attempt \<le> k \<and> k < n \<longrightarrow> operation k = Inl (err k)"
    and "operation n = Inr v"
  shows "retryLoop operation maxRetries retryDelay attempt lastError waited =
           \<lparr>outcome = Inr v, attempts = Suc n,
            delays = waited @ map (\<lambda>k. retryDelay * 2 ^ k) [attempt ..< n]\<rparr>"
  using assms
proof (induction "n - attempt" arbitrary: attempt lastError waited)
  case 0
  then have "attempt = n" by simp
  then show ?case
    using "0.prems" by (subst retryLoop.simps) simp
next
  case (Suc d)
  then have lt: "attempt < n" by simp
  then have fails: "operation attempt = Inl (err attempt)"
    using Suc.prems(3) by simp
  have more: "int attempt < maxRetries"
    using lt Suc.prems(2) by simp
  have step: "retryLoop operation maxRetries retryDelay attempt lastError waited =
                retryLoop operation maxRetries retryDelay (Suc attempt) (Some (err attempt))
                  (waited @ [retryDelay * 2 ^ attempt])"
    using fails more by (subst retryLoop.simps) simp
  have ih: "retryLoop operation maxRetries retryDelay (Suc attempt) (Some (err attempt))
                  (waited @ [retryDelay * 2 ^ attempt]) =
              \<lparr>outcome = Inr v, attempts = Suc n,
               delays = (waited @ [retryDelay * 2 ^ attempt])
                          @ map (\<lambda>k. retryDelay * 2 ^ k) [Suc attempt ..< n]\<rparr>"
    using Suc.hyps(2) lt Suc.prems(2,3,4) by (intro Suc.hyps(1)) simp_all
  show ?case
    using step ih lt by (simp add: upt_conv_Cons)
qed

lemma retryLoop_exhausted:
  assumes "int attempt \<le> maxRetries"
    and "\<forall>k. attempt \<le> k \<and> int k \<le> maxRetries \<longrightarrow> operation k = Inl (err k)"
  shows "retryLoop operation maxRetries retryDelay attempt lastError waited =
           \<lparr>outcome = Inl (Some (err (nat maxRetries))), attempts = Suc (nat maxRetries),
            delays = waited @ map (\<lambda>k. retryDelay * 2 ^ k) [attempt ..< nat maxRetries]\<rparr>"
  using assms
proof (induction "nat maxRetries - attempt" arbitrary: attempt lastError waited)
  case 0
  then have last: "int attempt = maxRetries" by simp
  then have fails: "operation attempt = Inl (err attempt)"
    using "0.prems"(2) by simp
  have "retryLoop operation maxRetries retryDelay attempt lastError waited =
          retryLoop operation maxRetries retryDelay (Suc attempt) (Some (err attempt)) waited"
    using fails last by (subst retryLoop.simps) simp
  also have "\<dots> = \<lparr>outcome = Inl (Some (err attempt)), attempts = Suc attempt, delays = waited\<rparr>"
    using last by (subst retryLoop.simps) simp
  finally show ?case
    using last by auto
next
  case (Suc d)
  then have more: "int attempt < maxRetries" by simp
  then have fails: "operation attempt = Inl (err attempt)"
    using Suc.prems(2) by simp
  have step: "retryLoop operation maxRetries retryDelay attempt lastError waited =
                retryLoop operation maxRetries retryDelay (Suc attempt) (Some (err attempt))
                  (waited @ [retryDelay * 2 ^ attempt])"
    using fails more by (subst retryLoop.simps) simp
  have ih: "retryLoop operation maxRetries retryDelay (Suc attempt) (Some (err attempt))
                  (waited @ [retryDelay * 2 ^ attempt]) =
              \<lparr>outcome = Inl (Some (err (nat maxRetries))), attempts = Suc (nat maxRetries),
               delays = (waited @ [retryDelay * 2 ^ attempt])
                          @ map (\<lambda>k. retryDelay * 2 ^ k) [Suc attempt ..< nat maxRetries]\<rparr>"
    using Suc.hyps(2) more Suc.prems(2) by (intro Suc.hyps(1)) auto
  have "attempt < nat maxRetries"
    using more by simp
  then show ?case
    using step ih by (simp add: upt_conv_Cons)
qed

definition alwaysBadRequest :: "nat \<Rightarrow> apiError + string list" where
  "alwaysBadRequest k = Inl (handleApiError \<lparr>response_status = Some 400, response_data_nullish = False, error_code = None\<rparr>)"

text \<open>
  C5, as the claim states it, fails: \<open>executeWithRetry\<close> does not look at the kind of
  the error. A request that the service answers with status 400 every time, a
  \<open>BadRequest\<close>, is sent four times when \<open>maxRetries\<close> is 3, with the three delays of the
  backoff in between, before the error reaches the caller.
\<close>

theorem retry_bad_request_counterexample:
  "alwaysBadRequest 0 = Inl BadRequest
   \<and> executeWithRetry alwaysBadRequest 3 1000 =
       \<lparr>outcome = Inl (Some BadRequest), attempts = 4, delays = [1000, 2000, 4000]\<rparr>"
proof -
  have op: "alwaysBadRequest k = Inl BadRequest" for k
    by (simp add: alwaysBadRequest_def handleApiError_def)
  have "retryLoop alwaysBadRequest 3 1000 0 None [] =
          \<lparr>outcome = Inl (Some BadRequest), attempts = Suc (nat 3),
           delays = [] @ map (\<lambda>k. 1000 * 2 ^ k) [0 ..< nat 3]\<rparr>"
    using retryLoop_exhausted [of 0 3 alwaysBadRequest "\<lambda>k. BadRequest" 1000 None "[]"] op by simp
  then show ?thesis
    using op by (simp add: executeWithRetry_def upt_conv_Cons numeral_3_eq_3)
qed

text \<open>
  C5, amended. The backend adapter retries a failed request whatever the kind of the
  error, with the delay \<open>retryDelay * 2 ^ attempt\<close> before the next attempt: when the
  first \<open>n\<close> attempts fail, each with any error, and attempt \<open>n \<le> maxRetries\<close> succeeds,
  it returns that result after \<open>n + 1\<close> attempts and the delays of the attempts
  \<open>0 .. n - 1\<close>; when every attempt up to \<open>maxRetries\<close> fails, the error of the last
  attempt reaches the caller after \<open>maxRetries + 1\<close> attempts and the delays of the attempts
  \<open>0 .. maxRetries - 1\<close>.
\<close>

theorem executeWithRetry_any_error:
  "(int n \<le> maxRetries \<and> (\<forall>k < n. operation k = Inl (err k)) \<and> operation n = Inr v \<longrightarrow>
      executeWithRetry operation maxRetries retryDelay =
        \<lparr>outcome = Inr v, attempts = Suc n, delays = map (\<lambda>k. retryDelay * 2 ^ k) [0 ..< n]\<rparr>)
   \<and> (0 \<le> maxRetries \<and> (\<forall>k. int k \<le> maxRetries \<longrightarrow> operation k = Inl (err k)) \<longrightarrow>
      executeWithRetry operation maxRetries retryDelay =
        \<lparr>outcome = Inl (Some (err (nat maxRetries))), attempts = Suc (nat maxRetries),
         delays = map (\<lambda>k. retryDelay * 2 ^ k) [0 ..< nat maxRetries]\<rparr>)"
proof (intro conjI impI)
  assume "int n \<le> maxRetries \<and> (\<forall>k < n. operation k = Inl (err k)) \<and> operation n = Inr v"
  then show "executeWithRetry operation maxRetries retryDelay =
        \<lparr>outcome = Inr v, attempts = Suc n, delays = map (\<lambda>k. retryDelay * 2 ^ k) [0 ..< n]\<rparr>"
    using retryLoop_success [of 0 n maxRetries operation err v retryDelay None "[]"]
    by (simp add: executeWithRetry_def)
next
  assume "0 \<le> maxRetries \<and> (\<forall>k. int k \<le> maxRetries \<longrightarrow> operation k = Inl (err k))"
  then show "executeWithRetry operation maxRetries retryDelay =
        \<lparr>outcome = Inl (Some (err (nat maxRetries))), attempts = Suc (nat maxRetries),
         delays = map (\<lambda>k. retryDelay * 2 ^ k) [0 ..< nat maxRetries]\<rparr>"
    using retryLoop_exhausted [of 0 maxRetries operation err retryDelay None "[]"]
    by (simp add: executeWithRetry_def)
qed

definition failTwice :: "nat \<Rightarrow> apiError + string list" where
  "failTwice k = (if k = 0 then Inl Forbidden else if k = 1 then Inl RateLimited else Inr [''Hola''])"

theorem executeWithRetry_any_error_witness:
  "failTwice 0 = Inl Forbidden \<and> failTwice 1 = Inl RateLimited \<and> failTwice 2 = Inr [''Hola'']
   \<and> executeWithRetry failTwice 3 1000 =
        \<lparr>outcome = Inr [''Hola''], attempts = 3, delays = [1000, 2000]\<rparr>
   \<and> alwaysBadRequest 3 = Inl BadRequest
   \<and> executeWithRetry alwaysBadRequest 3 1000 =
        \<lparr>outcome = Inl (Some BadRequest), attempts = 4, delays = [1000, 2000, 4000]\<rparr>"
proof -
  have f: "\<forall>k < 2. failTwice k = Inl ((\<lambda>k. if k = 0 then Forbidden else RateLimited) k)"
    by (auto simp: failTwice_def)
  have s: "failTwice 2 = Inr [''Hola'']"
    by (simp add: failTwice_def)
  have b: "\<forall>k. int k \<le> 3 \<longrightarrow> alwaysBadRequest k = Inl BadRequest"
    by (simp add: alwaysBadRequest_def handleApiError_def)
  have one: "executeWithRetry failTwice 3 1000 =
        \<lparr>outcome = Inr [''Hola''], attempts = Suc 2, delays = map (\<lambda>k. 1000 * 2 ^ k) [0 ..< 2]\<rparr>"
    using f s executeWithRetry_any_error
      [of 2 3 failTwice "\<lambda>k. if k = 0 then Forbidden else RateLimited" "[''Hola'']" 1000]
    by simp
  have two: "executeWithRetry alwaysBadRequest 3 1000 =
        \<lparr>outcome = Inl (Some BadRequest), attempts = Suc (nat 3),
         delays = map (\<lambda>k. 1000 * 2 ^ k) [0 ..< nat 3]\<rparr>"
    using b executeWithRetry_any_error
      [of 0 3 alwaysBadRequest "\<lambda>k. BadRequest" "[]" 1000]
    by simp
  have l2: "[0 ..< (2::nat)] = [0, 1]" and l3: "[0 ..< (3::nat)] = [0, 1, 2]"
    by (simp_all add: upt_conv_Cons numeral_2_eq_2 numeral_3_eq_3)
  show ?thesis
    using f s b one two by (simp add: l2 l3 failTwice_def)
qed

subsection \<open>The translation memory as a cache\<close>

lemma checkTranslationMemory_single_hit:
  assumes "mem (getMemoryKey t src tgt) = Some entry"
  shows "checkTranslationMemory mem now [t] src tgt =
           ([m_translatedText entry],
            mem(getMemoryKey t src tgt \<mapsto> entry\<lparr>m_usageCount := m_usageCount entry + 1, m_lastUsed := now\<rparr>))"
  using assms by (simp add: Let_def)

lemma translateText_cache_hit:
  assumes "src \<noteq> []"
    and "mem (getMemoryKey t src tgt) = Some entry"
    and "truthyS (m_translatedText entry)"
  shows "translateText post_request maxRetries retryDelay mem now [t] tgt (Some src) =
           \<lparr>returned = Inr [m_translatedText entry],
            memoryAfter = mem(getMemoryKey t src tgt \<mapsto>
                               entry\<lparr>m_usageCount := m_usageCount entry + 1, m_lastUsed := now\<rparr>),
            requests = []\<rparr>"
  using assms
  by (simp add: translateText_def checkTranslationMemory_single_hit truthyS_def Let_def)

text \<open>
  After a call for one text, with a source language, that returned a translation that is
  not empty, the memory holds an entry for the text with that translation.
\<close>

lemma translateText_stores:
  assumes "src \<noteq> []" "tr \<noteq> []"
    and "returned (translateText post_request maxRetries retryDelay mem now [t] tgt (Some src)) = Inr [Some tr]"
  shows "\<exists>entry. memoryAfter (translateText post_request maxRetries retryDelay mem now [t] tgt (Some src))
                    (getMemoryKey t src tgt) = Some entry
                 \<and> m_translatedText entry = Some tr"
proof (cases "mem (getMemoryKey t src tgt)")
  case None
  then show ?thesis
    using assms
    by (auto simp: translateText_def Let_def truthyS_def storeInTranslationMemory_def
        split: sum.splits if_splits)
next
  case (Some entry)
  show ?thesis
  proof (cases "truthyS (m_translatedText entry)")
    case True
    then show ?thesis
      using assms Some
        translateText_cache_hit [where src = src and mem = mem and t = t and tgt = tgt and entry = entry
          and post_request = post_request and maxRetries = maxRetries and retryDelay = retryDelay
          and now = now]
      by simp
  next
    case False
    then show ?thesis
      using assms Some
      by (auto simp: translateText_def Let_def truthyS_def storeInTranslationMemory_def
          checkTranslationMemory_single_hit split: sum.splits if_splits)
  qed
qed

text \<open>
  The cache works as the specification says whenever the translation is not empty: a
  second call for the same text and languages sends no request, returns the same
  translation, adds one to the usage counter of the entry and sets its time stamp.
\<close>

lemma cache_convergence_nonempty:
  assumes "src \<noteq> []" "tr \<noteq> []"
    and "first = translateText post1 maxRetries retryDelay mem now1 [t] tgt (Some src)"
    and "returned first = Inr [Some tr]"
    and "second = translateText post2 maxRetries retryDelay (memoryAfter first) now2 [t] tgt (Some src)"
  shows "requests second = [] \<and> returned second = Inr [Some tr]
       \<and> (\<exists>e1 e2. memoryAfter first (getMemoryKey t src tgt) = Some e1
                  \<and> memoryAfter second (getMemoryKey t src tgt) = Some e2
                  \<and> m_usageCount e2 = m_usageCount e1 + 1 \<and> m_lastUsed e2 = now2)"
proof -
  obtain entry where e: "memoryAfter first (getMemoryKey t src tgt) = Some entry"
    "m_translatedText entry = Some tr"
    using translateText_stores [OF assms(1,2)] assms(3,4) by blast
  have t: "truthyS (m_translatedText entry)"
    using e(2) assms(2) by (simp add: truthyS_def)
  show ?thesis
    using translateText_cache_hit [where src = src and mem = "memoryAfter first" and t = t and tgt = tgt
        and entry = entry and post_request = post2 and maxRetries = maxRetries
        and retryDelay = retryDelay and now = now2] assms(1) t e assms(5)
    by simp
qed

text \<open>A service for the example: it translates \<open>Hello\<close> and returns every other text as
  it is, the empty text among them.\<close>

definition exampleService :: "nat \<Rightarrow> DeepLTranslationRequest \<Rightarrow> AxiosError + DeepLTranslation list" where
  "exampleService k request =
     Inr (map (\<lambda>t. \<lparr>detected_source_language = Some ''EN'',
                     tr_text = (if t = ''Hello'' then ''Hallo'' else t)\<rparr>) (req_text request))"

definition firstCall :: translateResult where
  "firstCall = translateText exampleService 3 1000 Map.empty 1 [''''] ''de'' (Some ''en'')"

definition secondCall :: translateResult where
  "secondCall = translateText exampleService 3 1000 (memoryAfter firstCall) 2 [''''] ''de'' (Some ''en'')"

text \<open>
  C6 on the empty text. The first call succeeds and stores the empty translation the
  service returned. The second call with the same arguments finds the entry (its usage
  counter goes from 1 to 2) but takes the empty translation for a miss, since
  \<open>!cachedResults[index]\<close> holds for the empty string as it does for \<open>null\<close>: it sends a
  second request to the service, where the claim says none, and the entry it then stores
  starts again at usage count 1.
\<close>

theorem cache_empty_translation_second_request:
  "returned firstCall = Inr [Some []]
   \<and> length (requests firstCall) = 1
   \<and> map_option m_usageCount (memoryAfter firstCall (getMemoryKey [] ''en'' ''de'')) = Some 1
   \<and> returned secondCall = Inr [Some []]
   \<and> length (requests secondCall) = 1
   \<and> map_option m_usageCount (memoryAfter secondCall (getMemoryKey [] ''en'' ''de'')) = Some 1"
proof -
  have run: "executeWithRetry
               (\<lambda>k. case exampleService k request of Inl err \<Rightarrow> Inl (handleApiError err)
                     | Inr response \<Rightarrow> Inr response) 3 1000
             = \<lparr>outcome = Inr (map (\<lambda>t. \<lparr>detected_source_language = Some ''EN'',
                                          tr_text = (if t = ''Hello'' then ''Hallo'' else t)\<rparr>)
                                  (req_text request)),
                attempts = 1, delays = []\<rparr>" for request
    by (simp add: executeWithRetry_def retryLoop.simps exampleService_def)
  have first: "firstCall =
     \<lparr>returned = Inr [Some []],
      memoryAfter = Map.empty(getMemoryKey [] ''en'' ''de'' \<mapsto>
        \<lparr>m_id = getMemoryKey [] ''en'' ''de'', m_sourceText = [], m_translatedText = Some [],
         m_sourceLanguage = ''en'', m_targetLanguage = ''de'', m_contentType = ''text'',
         m_confidence = 1, m_createdAt = 1, m_usageCount = 1, m_lastUsed = 1\<rparr>),
      requests = [\<lparr>req_text = [[]], req_target_lang = toUpperCase ''de'',
                   req_source_lang = Some (toUpperCase ''en'')\<rparr>]\<rparr>"
    by (simp add: firstCall_def translateText_def Let_def truthyS_def run
        storeInTranslationMemory_def nthOpt_def)
  have second: "returned secondCall = Inr [Some []] \<and> length (requests secondCall) = 1
     \<and> map_option m_usageCount (memoryAfter secondCall (getMemoryKey [] ''en'' ''de'')) = Some 1"
    by (simp add: secondCall_def first translateText_def Let_def truthyS_def run
        storeInTranslationMemory_def nthOpt_def)
  have first_parts: "returned firstCall = Inr [Some []] \<and> length (requests firstCall) = 1
     \<and> map_option m_usageCount (memoryAfter firstCall (getMemoryKey [] ''en'' ''de'')) = Some 1"
    by (simp add: first)
  show ?thesis
    using first_parts second by simp
qed

subsection \<open>Rebuilding replaces the matched positions only\<close>

text \<open>A document in which the key \<open>a.b\<close> of the root and the key \<open>b\<close> of the member \<open>a\<close>
  have the same path \<open>a.b\<close>.\<close>

definition collidingDocument :: json where
  "collidingDocument =
     JObj [(''a.b'', JObj [(''n'', JNum ''5'')]),
           (''a'', JObj [(''b'', JStr ''hello world'')])]"

definition collidingText :: string where
  "collidingText = ''{'a.b':{'n':5},'a':{'b':'hello world'}}''"

definition collidingParse :: "string \<Rightarrow> json option" where
  "collidingParse = map_of [(collidingText, collidingDocument)]"

text \<open>An Editor.js document with a paragraph, a list, a table, a checklist and a block of
  a type of its own, and a fragment list for it: translated texts and an untranslated list
  item.\<close>

definition frameDocument :: json where
  "frameDocument =
     JObj [(''time'', JNum ''1700000000''),
           (''blocks'',
              JArr [JObj [(''id'', JStr ''p1''), (''type'', JStr ''paragraph''),
                          (''data'', JObj [(''text'', JStr ''Hello world''), (''level'', JNum ''2'')])],
                    JObj [(''type'', JStr ''list''),
                          (''data'', JObj [(''style'', JStr ''ordered''),
                                           (''items'', JArr [JStr ''First item'', JStr ''Second item''])])],
                    JObj [(''type'', JStr ''table''),
                          (''data'', JObj [(''withHeadings'', JBool True),
                                           (''content'', JArr [JArr [JStr ''Name'', JStr ''Price''],
                                                               JArr [JStr ''Headphones'', JStr ''99'']])])],
                    JObj [(''type'', JStr ''checklist''),
                          (''data'', JObj [(''items'', JArr [JObj [(''text'', JStr ''Buy milk''),
                                                                   (''checked'', JBool False)]])])],
                    JObj [(''type'', JStr ''callout''),
                          (''data'', JObj [(''label'', JStr ''Read more''),
                                           (''links'', JArr [JStr ''Home page'', JStr ''Contact us''])])]]),
           (''version'', JStr ''2.28.0'')]"

definition frameTranslations :: "ExtractedText list" where
  "frameTranslations =
     [(mkFragment ''blocks[0].data.text'' ''Hello world'' ''paragraph block'' T_text)
        \<lparr>translatedText := Some ''Hallo Welt''\<rparr>,
      (mkFragment ''blocks[1].data.items[0]'' ''First item'' ''ordered list item'' T_text)
        \<lparr>translatedText := Some []\<rparr>,
      (mkFragment ''blocks[2].data.content[0][1]'' ''Price'' ''table cell (1, 2)'' T_text)
        \<lparr>translatedText := Some ''Preis''\<rparr>,
      (mkFragment ''blocks[3].data.items[0].text'' ''Buy milk'' ''checklist item'' T_text)
        \<lparr>translatedText := Some ''Milch kaufen''\<rparr>,
      (mkFragment ''blocks[4].data.label'' ''Read more'' ''callout label'' T_text)
        \<lparr>translatedText := Some ''Mehr lesen''\<rparr>,
      (mkFragment ''blocks[4].data.links[1]'' ''Contact us'' ''callout links item'' T_text)
        \<lparr>translatedText := Some ''Kontakt''\<rparr>]"

definition frameText :: string where
  "frameText = ''{'time':1700000000,'blocks':[{'id':'p1','type':'paragraph','data':{'text':'Hello world','level':2}},{'type':'list','data':{'style':'ordered','items':['First item','Second item']}},{'type':'table','data':{'withHeadings':true,'content':[['Name','Price'],['Headphones','99']]}},{'type':'checklist','data':{'items':[{'text':'Buy milk','checked':false}]}},{'type':'callout','data':{'label':'Read more','links':['Home page','Contact us']}}],'version':'2.28.0'}''"

definition frameRebuiltText :: string where
  "frameRebuiltText = ''{'time':1700000000,'blocks':[{'id':'p1','type':'paragraph','data':{'text':'Hallo Welt','level':2}},{'type':'list','data':{'style':'ordered','items':['First item','Second item']}},{'type':'table','data':{'withHeadings':true,'content':[['Name','Preis'],['Headphones','99']]}},{'type':'checklist','data':{'items':[{'text':'Milch kaufen','checked':false}]}},{'type':'callout','data':{'label':'Mehr lesen','links':['Home page','Kontakt']}}],'version':'2.28.0'}''"

definition frameRebuilt :: json where
  "frameRebuilt =
     JObj [(''time'', JNum ''1700000000''),
           (''blocks'',
              JArr [JObj [(''id'', JStr ''p1''), (''type'', JStr ''paragraph''),
                          (''data'', JObj [(''text'', JStr ''Hallo Welt''), (''level'', JNum ''2'')])],
                    JObj [(''type'', JStr ''list''),
                          (''data'', JObj [(''style'', JStr ''ordered''),
                                           (''items'', JArr [JStr ''First item'', JStr ''Second item''])])],
                    JObj [(''type'', JStr ''table''),
                          (''data'', JObj [(''withHeadings'', JBool True),
                                           (''content'', JArr [JArr [JStr ''Name'', JStr ''Preis''],
                                                               JArr [JStr ''Headphones'', JStr ''99'']])])],
                    JObj [(''type'', JStr ''checklist''),
                          (''data'', JObj [(''items'', JArr [JObj [(''text'', JStr ''Milch kaufen''),
                                                                   (''checked'', JBool False)]])])],
                    JObj [(''type'', JStr ''callout''),
                          (''data'', JObj [(''label'', JStr ''Mehr lesen''),
                                           (''links'', JArr [JStr ''Home page'', JStr ''Kontakt''])])]]),
           (''version'', JStr ''2.28.0'')]"

text \<open>
  The document \<open>collidingDocument\<close> and its own extraction. The only fragment is the string
  at \<open>a\<close>, \<open>b\<close>, with the path \<open>a.b\<close>. The number \<open>5\<close> is the leaf at \<open>a.b\<close>, \<open>n\<close>; its path
  \<open>a.b.n\<close> is the path of no fragment. Rebuilding assigns the fragment's text to the key
  \<open>a.b\<close> of the root, whose path is \<open>a.b\<close> too: the object \<open>{n: 5}\<close> and its leaf are gone,
  and the result has not the structure of the document.
\<close>

theorem reconstructObject_collision_counterexample:
  "map path (JsonParser_parse collidingParse collidingText) = [''a.b'']
   \<and> jget collidingDocument [Key ''a.b'', Key ''n''] = Some (JNum ''5'')
   \<and> addrPath [] [Key ''a.b'', Key ''n''] = ''a.b.n''
   \<and> reconstructObject collidingDocument []
         (pathTranslationMap (untranslated (JsonParser_parse collidingParse collidingText)))
       = JObj [(''a.b'', JStr ''hello world''), (''a'', JObj [(''b'', JStr ''hello world'')])]
   \<and> jget (reconstructObject collidingDocument []
         (pathTranslationMap (untranslated (JsonParser_parse collidingParse collidingText))))
         [Key ''a.b'', Key ''n''] = None
   \<and> \<not> sameShape collidingDocument (reconstructObject collidingDocument []
         (pathTranslationMap (untranslated (JsonParser_parse collidingParse collidingText))))"
proof -
  have parse: "JsonParser_parse collidingParse collidingText
                 = extractFromObject collidingDocument [] ''JSON''"
    by (simp add: JsonParser_parse_def collidingParse_def)
  have paths: "map path (extractFromObject collidingDocument [] ''JSON'') = [''a.b'']"
    by code_simp
  have leaf: "jget collidingDocument [Key ''a.b'', Key ''n''] = Some (JNum ''5'')"
    by code_simp
  have addr: "addrPath [] [Key ''a.b'', Key ''n''] = ''a.b.n''"
    by code_simp
  have rebuilt: "reconstructObject collidingDocument []
         (pathTranslationMap (untranslated (extractFromObject collidingDocument [] ''JSON'')))
       = JObj [(''a.b'', JStr ''hello world''), (''a'', JObj [(''b'', JStr ''hello world'')])]"
    by code_simp
  have gone: "jget (JObj [(''a.b'', JStr ''hello world''), (''a'', JObj [(''b'', JStr ''hello world'')])])
                [Key ''a.b'', Key ''n''] = None"
    by simp
  have shape: "\<not> sameShape collidingDocument
                 (JObj [(''a.b'', JStr ''hello world''), (''a'', JObj [(''b'', JStr ''hello world'')])])"
    by (simp add: collidingDocument_def)
  show ?thesis
    unfolding parse rebuilt using paths leaf addr gone shape by simp
qed

text \<open>
  C3. Rebuilding replaces the matched positions only, for every document and every
  fragment list, with \<open>tm\<close> the map from the paths of the fragments to their texts.
  \<^item> A fragment whose path no other fragment has is in the map with its translation when
    that is present and not empty, with its original text otherwise.
  \<^item> The generic JSON parser prints \<open>reconstructObject\<close> of the parsed document. When the
    path of the root, the empty path, is not in the map: a leaf that is reached without
    passing a position whose path is in the map is in the result at the same place with
    the same value; a position that is reached in that way and whose own path is in the
    map holds the text of the map; and when every position whose path is in the map is a
    leaf, the result has the structure of the document: the same nesting, the same keys
    in the same order, arrays of the same lengths. Nothing is stated about a document
    whose root has its path in the map.
  \<^item> The Editor.js parser prints \<open>rebuildEditorJS\<close> of the parsed document when that
    completes. When no block has an array as its \<open>data\<close>, every leaf of the document that
    is reached without passing a position whose path is in the map is in the result at the
    same place with the same value, the document has the same keys and the same number
    of blocks, and each block of the result is \<open>reconstructBlock\<close> of the block at its
    index. Such a block keeps its keys and every property but \<open>data\<close>, its \<open>type\<close>
    included.
  \<^item> In a block that \<open>reconstructBlock\<close> has rebuilt, whose \<open>data\<close> is an object, the text
    positions hold the text of the map for their path: a text field of the block's type,
    the \<open>text\<close> of a checklist item that is an object, and a string field or an array item
    of a block of another type, whenever the path is in the map; an item of a list and a
    cell of a table when that text is not empty.
\<close>

theorem rebuild_frame:
  assumes "tm = pathTranslationMap fragments"
  shows
    "(f \<in> set fragments \<and> (\<forall>g \<in> set fragments. path g = path f \<longrightarrow> g = f)
        \<longrightarrow> tm (path f) = Some (translationOrOriginal f))
     \<and> (JSON_parse D = Some j
        \<longrightarrow> JsonParser_reconstruct JSON_parse JSON_stringify D fragments
              = JSON_stringify (reconstructObject j [] tm))
     \<and> (tm [] = None \<and> jget j a = Some v \<and> isLeaf v \<and> unmatched tm [] a
        \<longrightarrow> jget (reconstructObject j [] tm) a = Some v)
     \<and> (tm [] = None \<and> jget j (a' @ [s]) = Some w \<and> unmatched tm [] a'
          \<and> tm (addrPath [] (a' @ [s])) = Some t
        \<longrightarrow> jget (reconstructObject j [] tm) (a' @ [s]) = Some (JStr t))
     \<and> (tm [] = None \<and> (\<forall>(q, x) \<in> set (positions j []). tm q \<noteq> None \<longrightarrow> isLeaf x)
        \<longrightarrow> sameShape j (reconstructObject j [] tm))
     \<and> (JSON_parse D = Some e \<and> rebuildEditorJS e tm = Inr r
        \<longrightarrow> EditorJSParser_reconstruct JSON_parse JSON_stringify D fragments = JSON_stringify r)
     \<and> (rebuildEditorJS e tm = Inr r \<and> (\<forall>b \<in> set (blocksOf e). \<not> isArray (dataOf b))
        \<longrightarrow> agreesOff tm [] e r
            \<and> map fst (ownEntries r) = map fst (ownEntries e)
            \<and> length (blocksOf r) = length (blocksOf e)
            \<and> (\<forall>n < length (blocksOf e).
                  reconstructBlock (blocksOf e ! n) n tm = Inr (blocksOf r ! n)))
     \<and> (reconstructBlock b i tm = Inr b' \<and> \<not> isArray (dataOf b)
        \<longrightarrow> agreesOff tm (blockPathOf i) b b'
            \<and> map fst (ownEntries b') = map fst (ownEntries b)
            \<and> (\<forall>k. k \<noteq> ''data'' \<longrightarrow> getProp b' k = getProp b k))
     \<and> (reconstructBlock (JObj kvs) i tm = Inr b'' \<and> map_of kvs ''data'' = Some (JObj dkvs)
        \<longrightarrow> (\<forall>ty key u. map_of kvs ''type'' = Some (JStr ty) \<and> key \<in> set (textFields ty)
                 \<and> tm (blockPathOf i @ ''.data.'' @ key) = Some u
               \<longrightarrow> jget b'' [Key ''data'', Key key] = Some (JStr u))
            \<and> (\<forall>xs n u. map_of kvs ''type'' = Some (JStr ''list'')
                 \<and> map_of dkvs ''items'' = Some (JArr xs) \<and> n < length xs
                 \<and> tm (blockPathOf i @ ''.data.items['' @ showNat n @ '']'') = Some u \<and> u \<noteq> []
               \<longrightarrow> jget b'' [Key ''data'', Key ''items'', Idx n] = Some (JStr u)))
     \<and> (reconstructBlock (JObj kvs) i tm = Inr b'' \<and> map_of kvs ''data'' = Some (JObj dkvs)
        \<longrightarrow> (\<forall>rows ro cells c u. map_of kvs ''type'' = Some (JStr ''table'')
                 \<and> map_of dkvs ''content'' = Some (JArr rows) \<and> ro < length rows
                 \<and> rows ! ro = JArr cells \<and> c < length cells
                 \<and> tm (blockPathOf i @ ''.data.content['' @ showNat ro @ '']['' @ showNat c @ '']'')
                     = Some u \<and> u \<noteq> []
               \<longrightarrow> jget b'' [Key ''data'', Key ''content'', Idx ro, Idx c] = Some (JStr u))
            \<and> (\<forall>xs n ikvs u. map_of kvs ''type'' = Some (JStr ''checklist'')
                 \<and> map_of dkvs ''items'' = Some (JArr xs) \<and> n < length xs \<and> xs ! n = JObj ikvs
                 \<and> tm (blockPathOf i @ ''.data.items['' @ showNat n @ ''].text'') = Some u
               \<longrightarrow> jget b'' [Key ''data'', Key ''items'', Idx n, Key ''text''] = Some (JStr u))
            \<and> (\<forall>key x u. customType (map_of kvs ''type'') \<and> map_of dkvs key = Some (JStr x)
                 \<and> tm (blockPathOf i @ ''.data.'' @ key) = Some u
               \<longrightarrow> jget b'' [Key ''data'', Key key] = Some (JStr u))
            \<and> (\<forall>key xs n u. customType (map_of kvs ''type'') \<and> map_of dkvs key = Some (JArr xs)
                 \<and> n < length xs \<and> tm (blockPathOf i @ ''.data.'' @ key @ ''['' @ showNat n @ '']'') = Some u
               \<longrightarrow> jget b'' [Key ''data'', Key key, Idx n] = Some (JStr u)))"
proof -
  have unique: "f \<in> set fragments \<and> (\<forall>g \<in> set fragments. path g = path f \<longrightarrow> g = f)
        \<longrightarrow> tm (path f) = Some (translationOrOriginal f)"
    unfolding assms using pathTranslationMap_unique [of f fragments] by blast
  have printed: "JSON_parse D = Some j
        \<longrightarrow> JsonParser_reconstruct JSON_parse JSON_stringify D fragments
              = JSON_stringify (reconstructObject j [] tm)"
    by (simp add: JsonParser_reconstruct_def assms)
  have frame: "tm [] = None \<and> jget j a = Some v \<and> isLeaf v \<and> unmatched tm [] a
        \<longrightarrow> jget (reconstructObject j [] tm) a = Some v"
    using jget_reconstruct_unmatched [of j a v tm "[]"] reconstructObject_leaf [of v "addrPath [] a" tm]
    by auto
  have matched: "tm [] = None \<and> jget j (a' @ [s]) = Some w \<and> unmatched tm [] a'
          \<and> tm (addrPath [] (a' @ [s])) = Some t
        \<longrightarrow> jget (reconstructObject j [] tm) (a' @ [s]) = Some (JStr t)"
    using jget_reconstruct_matched [of j a' s w tm "[]" t] by blast
  have shape: "tm [] = None \<and> (\<forall>(q, x) \<in> set (positions j []). tm q \<noteq> None \<longrightarrow> isLeaf x)
        \<longrightarrow> sameShape j (reconstructObject j [] tm)"
    using reconstructObject_shape(1) [of j "[]" tm] by blast
  have printedE: "JSON_parse D = Some e \<and> rebuildEditorJS e tm = Inr r
        \<longrightarrow> EditorJSParser_reconstruct JSON_parse JSON_stringify D fragments = JSON_stringify r"
    by (auto simp: EditorJSParser_reconstruct_def assms)
  have document: "rebuildEditorJS e tm = Inr r \<and> (\<forall>b \<in> set (blocksOf e). \<not> isArray (dataOf b))
        \<longrightarrow> agreesOff tm [] e r
            \<and> map fst (ownEntries r) = map fst (ownEntries e)
            \<and> length (blocksOf r) = length (blocksOf e)
            \<and> (\<forall>n < length (blocksOf e).
                  reconstructBlock (blocksOf e ! n) n tm = Inr (blocksOf r ! n))"
    using rebuildEditorJS_agrees [of e tm r] by blast
  have block: "reconstructBlock b i tm = Inr b' \<and> \<not> isArray (dataOf b)
        \<longrightarrow> agreesOff tm (blockPathOf i) b b'
            \<and> map fst (ownEntries b') = map fst (ownEntries b)
            \<and> (\<forall>k. k \<noteq> ''data'' \<longrightarrow> getProp b' k = getProp b k)"
    using reconstructBlock_agrees [of b i tm b'] by blast
  have fields: "reconstructBlock (JObj kvs) i tm = Inr b'' \<and> map_of kvs ''data'' = Some (JObj dkvs)
        \<longrightarrow> (\<forall>ty key u. map_of kvs ''type'' = Some (JStr ty) \<and> key \<in> set (textFields ty)
                 \<and> tm (blockPathOf i @ ''.data.'' @ key) = Some u
               \<longrightarrow> jget b'' [Key ''data'', Key key] = Some (JStr u))
            \<and> (\<forall>xs n u. map_of kvs ''type'' = Some (JStr ''list'')
                 \<and> map_of dkvs ''items'' = Some (JArr xs) \<and> n < length xs
                 \<and> tm (blockPathOf i @ ''.data.items['' @ showNat n @ '']'') = Some u \<and> u \<noteq> []
               \<longrightarrow> jget b'' [Key ''data'', Key ''items'', Idx n] = Some (JStr u))"
  proof (intro impI conjI allI; elim conjE)
    fix ty key u
    assume run: "reconstructBlock (JObj kvs) i tm = Inr b''" "map_of kvs ''data'' = Some (JObj dkvs)"
      and field: "map_of kvs ''type'' = Some (JStr ty)" "key \<in> set (textFields ty)"
        "tm (blockPathOf i @ ''.data.'' @ key) = Some u"
    show "jget b'' [Key ''data'', Key key] = Some (JStr u)"
      by (rule reconstructBlock_text_field [OF run(1) field(1,2) run(2) field(3)])
  next
    fix xs n u
    assume run: "reconstructBlock (JObj kvs) i tm = Inr b''" "map_of kvs ''data'' = Some (JObj dkvs)"
      and list: "map_of kvs ''type'' = Some (JStr ''list'')" "map_of dkvs ''items'' = Some (JArr xs)"
        "n < length xs"
      and hit: "tm (blockPathOf i @ ''.data.items['' @ showNat n @ '']'') = Some u" "u \<noteq> []"
    show "jget b'' [Key ''data'', Key ''items'', Idx n] = Some (JStr u)"
      using reconstructBlock_list_item [OF run(1) list(1) run(2) list(2,3)] hit
      by (simp add: getOr_def)
  qed
  have others: "reconstructBlock (JObj kvs) i tm = Inr b'' \<and> map_of kvs ''data'' = Some (JObj dkvs)
        \<longrightarrow> (\<forall>rows ro cells c u. map_of kvs ''type'' = Some (JStr ''table'')
                 \<and> map_of dkvs ''content'' = Some (JArr rows) \<and> ro < length rows
                 \<and> rows ! ro = JArr cells \<and> c < length cells
                 \<and> tm (blockPathOf i @ ''.data.content['' @ showNat ro @ '']['' @ showNat c @ '']'')
                     = Some u \<and> u \<noteq> []
               \<longrightarrow> jget b'' [Key ''data'', Key ''content'', Idx ro, Idx c] = Some (JStr u))
            \<and> (\<forall>xs n ikvs u. map_of kvs ''type'' = Some (JStr ''checklist'')
                 \<and> map_of dkvs ''items'' = Some (JArr xs) \<and> n < length xs \<and> xs ! n = JObj ikvs
                 \<and> tm (blockPathOf i @ ''.data.items['' @ showNat n @ ''].text'') = Some u
               \<longrightarrow> jget b'' [Key ''data'', Key ''items'', Idx n, Key ''text''] = Some (JStr u))
            \<and> (\<forall>key x u. customType (map_of kvs ''type'') \<and> map_of dkvs key = Some (JStr x)
                 \<and> tm (blockPathOf i @ ''.data.'' @ key) = Some u
               \<longrightarrow> jget b'' [Key ''data'', Key key] = Some (JStr u))
            \<and> (\<forall>key xs n u. customType (map_of kvs ''type'') \<and> map_of dkvs key = Some (JArr xs)
                 \<and> n < length xs \<and> tm (blockPathOf i @ ''.data.'' @ key @ ''['' @ showNat n @ '']'') = Some u
               \<longrightarrow> jget b'' [Key ''data'', Key key, Idx n] = Some (JStr u))"
  proof (intro impI conjI allI; elim conjE)
    fix rows ro cells c u
    assume run: "reconstructBlock (JObj kvs) i tm = Inr b''" "map_of kvs ''data'' = Some (JObj dkvs)"
      and table: "map_of kvs ''type'' = Some (JStr ''table'')" "map_of dkvs ''content'' = Some (JArr rows)"
        "ro < length rows" "rows ! ro = JArr cells" "c < length cells"
      and hit: "tm (blockPathOf i @ ''.data.content['' @ showNat ro @ '']['' @ showNat c @ '']'') = Some u"
        "u \<noteq> []"
    show "jget b'' [Key ''data'', Key ''content'', Idx ro, Idx c] = Some (JStr u)"
      using reconstructBlock_table_cell [OF run(1) table(1) run(2) table(2,3,4,5)] hit
      by (simp add: getOr_def)
  next
    fix xs n ikvs u
    assume run: "reconstructBlock (JObj kvs) i tm = Inr b''" "map_of kvs ''data'' = Some (JObj dkvs)"
      and checklist: "map_of kvs ''type'' = Some (JStr ''checklist'')" "map_of dkvs ''items'' = Some (JArr xs)"
        "n < length xs" "xs ! n = JObj ikvs"
        "tm (blockPathOf i @ ''.data.items['' @ showNat n @ ''].text'') = Some u"
    show "jget b'' [Key ''data'', Key ''items'', Idx n, Key ''text''] = Some (JStr u)"
      by (rule reconstructBlock_checklist_item [OF run(1) checklist(1) run(2) checklist(2,3,4,5)])
  next
    fix key x u
    assume run: "reconstructBlock (JObj kvs) i tm = Inr b''" "map_of kvs ''data'' = Some (JObj dkvs)"
      and custom: "customType (map_of kvs ''type'')" "map_of dkvs key = Some (JStr x)"
        "tm (blockPathOf i @ ''.data.'' @ key) = Some u"
    show "jget b'' [Key ''data'', Key key] = Some (JStr u)"
      by (rule reconstructBlock_custom_field [OF run(1) custom(1) run(2) custom(2,3)])
  next
    fix key xs n u
    assume run: "reconstructBlock (JObj kvs) i tm = Inr b''" "map_of kvs ''data'' = Some (JObj dkvs)"
      and custom: "customType (map_of kvs ''type'')" "map_of dkvs key = Some (JArr xs)" "n < length xs"
        "tm (blockPathOf i @ ''.data.'' @ key @ ''['' @ showNat n @ '']'') = Some u"
    show "jget b'' [Key ''data'', Key key, Idx n] = Some (JStr u)"
      by (rule reconstructBlock_custom_item [OF run(1) custom(1) run(2) custom(2,3,4)])
  qed
  show ?thesis
    by (intro conjI) (rule unique printed frame matched shape printedE document block fields others)+
qed

theorem rebuild_frame_witness:
  "pathTranslationMap frameTranslations ''blocks[0].data.text'' = Some ''Hallo Welt''
   \<and> pathTranslationMap frameTranslations [] = None
   \<and> JsonParser_reconstruct (map_of [(frameText, frameDocument)])
         (printTable [(frameRebuilt, frameRebuiltText)]) frameText frameTranslations
       = frameRebuiltText
   \<and> jget (reconstructObject frameDocument [] (pathTranslationMap frameTranslations)) [Key ''version'']
       = Some (JStr ''2.28.0'')
   \<and> jget (reconstructObject frameDocument [] (pathTranslationMap frameTranslations))
         [Key ''blocks'', Idx 0, Key ''data'', Key ''text'']
       = Some (JStr ''Hallo Welt'')
   \<and> sameShape frameDocument (reconstructObject frameDocument [] (pathTranslationMap frameTranslations))
   \<and> EditorJSParser_reconstruct (map_of [(frameText, frameDocument)])
         (printTable [(frameRebuilt, frameRebuiltText)]) frameText frameTranslations
       = frameRebuiltText
   \<and> agreesOff (pathTranslationMap frameTranslations) [] frameDocument frameRebuilt
   \<and> map fst (ownEntries frameRebuilt) = map fst (ownEntries frameDocument)
   \<and> length (blocksOf frameRebuilt) = length (blocksOf frameDocument)
   \<and> getProp (blocksOf frameRebuilt ! 1) ''type'' = getProp (blocksOf frameDocument ! 1) ''type''
   \<and> jget (blocksOf frameRebuilt ! 0) [Key ''data'', Key ''text''] = Some (JStr ''Hallo Welt'')
   \<and> jget (blocksOf frameRebuilt ! 1) [Key ''data'', Key ''items'', Idx 0] = Some (JStr ''First item'')
   \<and> jget (blocksOf frameRebuilt ! 2) [Key ''data'', Key ''content'', Idx 0, Idx 1] = Some (JStr ''Preis'')
   \<and> jget (blocksOf frameRebuilt ! 3) [Key ''data'', Key ''items'', Idx 0, Key ''text'']
       = Some (JStr ''Milch kaufen'')
   \<and> jget (blocksOf frameRebuilt ! 4) [Key ''data'', Key ''label''] = Some (JStr ''Mehr lesen'')
   \<and> jget (blocksOf frameRebuilt ! 4) [Key ''data'', Key ''links'', Idx 1] = Some (JStr ''Kontakt'')"
proof -
  let ?tm = "pathTranslationMap frameTranslations"
  let ?f = "(mkFragment ''blocks[0].data.text'' ''Hello world'' ''paragraph block'' T_text)
              \<lparr>translatedText := Some ''Hallo Welt''\<rparr>"
  let ?para = "[(''id'', JStr ''p1''), (''type'', JStr ''paragraph''),
                (''data'', JObj [(''text'', JStr ''Hello world''), (''level'', JNum ''2'')])]"
  let ?list = "[(''type'', JStr ''list''),
                (''data'', JObj [(''style'', JStr ''ordered''),
                                 (''items'', JArr [JStr ''First item'', JStr ''Second item''])])]"
  let ?tdata = "[(''withHeadings'', JBool True),
                 (''content'', JArr [JArr [JStr ''Name'', JStr ''Price''],
                                     JArr [JStr ''Headphones'', JStr ''99'']])]"
  let ?table = "[(''type'', JStr ''table''), (''data'', JObj ?tdata)]"
  let ?cdata = "[(''items'', JArr [JObj [(''text'', JStr ''Buy milk''), (''checked'', JBool False)]])]"
  let ?check = "[(''type'', JStr ''checklist''), (''data'', JObj ?cdata)]"
  let ?odata = "[(''label'', JStr ''Read more''),
                 (''links'', JArr [JStr ''Home page'', JStr ''Contact us''])]"
  let ?other = "[(''type'', JStr ''callout''), (''data'', JObj ?odata)]"
  note T = rebuild_frame [where tm = ?tm and fragments = frameTranslations, OF refl]
  note unique = T [THEN conjunct1]
  note printed = T [THEN conjunct2, THEN conjunct1]
  note frame = T [THEN conjunct2, THEN conjunct2, THEN conjunct1]
  note matched = T [THEN conjunct2, THEN conjunct2, THEN conjunct2, THEN conjunct1]
  note shape = T [THEN conjunct2, THEN conjunct2, THEN conjunct2, THEN conjunct2, THEN conjunct1]
  note printedE = T [THEN conjunct2, THEN conjunct2, THEN conjunct2, THEN conjunct2, THEN conjunct2,
      THEN conjunct1]
  note document = T [THEN conjunct2, THEN conjunct2, THEN conjunct2, THEN conjunct2, THEN conjunct2,
      THEN conjunct2, THEN conjunct1]
  note block = T [THEN conjunct2, THEN conjunct2, THEN conjunct2, THEN conjunct2, THEN conjunct2,
      THEN conjunct2, THEN conjunct2, THEN conjunct1]
  note fields = T [THEN conjunct2, THEN conjunct2, THEN conjunct2, THEN conjunct2, THEN conjunct2,
      THEN conjunct2, THEN conjunct2, THEN conjunct2, THEN conjunct1]
  note others = T [THEN conjunct2, THEN conjunct2, THEN conjunct2, THEN conjunct2, THEN conjunct2,
      THEN conjunct2, THEN conjunct2, THEN conjunct2, THEN conjunct2, THEN mp, OF conjI]
  have own: "?f \<in> set frameTranslations"
    "\<forall>g \<in> set frameTranslations. path g = path ?f \<longrightarrow> g = ?f"
    by (simp_all add: frameTranslations_def mkFragment_def)
  have pathf: "path ?f = ''blocks[0].data.text''" "translationOrOriginal ?f = ''Hallo Welt''"
    by (simp_all add: mkFragment_def translationOrOriginal_def)
  have "?tm (path ?f) = Some (translationOrOriginal ?f)"
    by (rule mp [OF unique [of ?f]]) (intro conjI own)
  then have c1: "?tm ''blocks[0].data.text'' = Some ''Hallo Welt''"
    by (simp only: pathf)
  have root: "?tm [] = None"
    by code_simp
  have rebuilt: "reconstructObject frameDocument [] ?tm = frameRebuilt"
    by code_simp
  have c2: "JsonParser_reconstruct (map_of [(frameText, frameDocument)])
         (printTable [(frameRebuilt, frameRebuiltText)]) frameText frameTranslations
       = frameRebuiltText"
    using printed [of "map_of [(frameText, frameDocument)]" frameText frameDocument
        "printTable [(frameRebuilt, frameRebuiltText)]"]
    by (simp add: rebuilt printTable_def)
  have leaf: "jget frameDocument [Key ''version''] = Some (JStr ''2.28.0'')"
    "isLeaf (JStr ''2.28.0'')" "unmatched ?tm [] [Key ''version'']"
    by code_simp+
  have c3: "jget (reconstructObject frameDocument [] ?tm) [Key ''version''] = Some (JStr ''2.28.0'')"
    using frame [of frameDocument "[Key ''version'']" "JStr ''2.28.0''"] root leaf by blast
  have hit: "jget frameDocument ([Key ''blocks'', Idx 0, Key ''data''] @ [Key ''text'']) = Some (JStr ''Hello world'')"
    "unmatched ?tm [] [Key ''blocks'', Idx 0, Key ''data'']"
    "?tm (addrPath [] ([Key ''blocks'', Idx 0, Key ''data''] @ [Key ''text''])) = Some ''Hallo Welt''"
    by code_simp+
  have "jget (reconstructObject frameDocument [] ?tm) ([Key ''blocks'', Idx 0, Key ''data''] @ [Key ''text''])
          = Some (JStr ''Hallo Welt'')"
    using matched [of frameDocument "[Key ''blocks'', Idx 0, Key ''data'']" "Key ''text''"
        "JStr ''Hello world''" "''Hallo Welt''"] root hit by blast
  then have c4: "jget (reconstructObject frameDocument [] ?tm) [Key ''blocks'', Idx 0, Key ''data'', Key ''text'']
          = Some (JStr ''Hallo Welt'')"
    by simp
  have leaves: "\<forall>(q, x) \<in> set (positions frameDocument []). ?tm q \<noteq> None \<longrightarrow> isLeaf x"
    by code_simp
  have c5: "sameShape frameDocument (reconstructObject frameDocument [] ?tm)"
    using shape [of frameDocument] root leaves by blast
  have run: "rebuildEditorJS frameDocument ?tm = Inr frameRebuilt"
    by code_simp
  have c6: "EditorJSParser_reconstruct (map_of [(frameText, frameDocument)])
         (printTable [(frameRebuilt, frameRebuiltText)]) frameText frameTranslations
       = frameRebuiltText"
    using printedE [of "map_of [(frameText, frameDocument)]" frameText frameDocument frameRebuilt
        "printTable [(frameRebuilt, frameRebuiltText)]"] run
    by (simp add: printTable_def)
  have objects: "\<forall>b \<in> set (blocksOf frameDocument). \<not> isArray (dataOf b)"
    by code_simp
  have c7: "agreesOff ?tm [] frameDocument frameRebuilt
      \<and> map fst (ownEntries frameRebuilt) = map fst (ownEntries frameDocument)
      \<and> length (blocksOf frameRebuilt) = length (blocksOf frameDocument)
      \<and> (\<forall>n < length (blocksOf frameDocument).
            reconstructBlock (blocksOf frameDocument ! n) n ?tm = Inr (blocksOf frameRebuilt ! n))"
    using document [of frameDocument frameRebuilt] run objects by blast
  have five: "length (blocksOf frameDocument) = 5"
    by code_simp
  have blocks: "reconstructBlock (blocksOf frameDocument ! 0) 0 ?tm = Inr (blocksOf frameRebuilt ! 0)"
    "reconstructBlock (blocksOf frameDocument ! 1) 1 ?tm = Inr (blocksOf frameRebuilt ! 1)"
    "reconstructBlock (blocksOf frameDocument ! 2) 2 ?tm = Inr (blocksOf frameRebuilt ! 2)"
    "reconstructBlock (blocksOf frameDocument ! 3) 3 ?tm = Inr (blocksOf frameRebuilt ! 3)"
    "reconstructBlock (blocksOf frameDocument ! 4) 4 ?tm = Inr (blocksOf frameRebuilt ! 4)"
    using c7 five by simp_all
  have obj1: "\<not> isArray (dataOf (blocksOf frameDocument ! 1))"
    by code_simp
  have "\<forall>k. k \<noteq> ''data'' \<longrightarrow> getProp (blocksOf frameRebuilt ! 1) k = getProp (blocksOf frameDocument ! 1) k"
    using block [of "blocksOf frameDocument ! 1" 1 "blocksOf frameRebuilt ! 1"] blocks(2) obj1 by blast
  then have c8: "getProp (blocksOf frameRebuilt ! 1) ''type'' = getProp (blocksOf frameDocument ! 1) ''type''"
    by simp
  have b0: "blocksOf frameDocument ! 0 = JObj ?para" and b1: "blocksOf frameDocument ! 1 = JObj ?list"
    and b2: "blocksOf frameDocument ! 2 = JObj ?table" and b3: "blocksOf frameDocument ! 3 = JObj ?check"
    and b4: "blocksOf frameDocument ! 4 = JObj ?other"
    by code_simp+
  have para: "map_of ?para ''data'' = Some (JObj [(''text'', JStr ''Hello world''), (''level'', JNum ''2'')])"
    "map_of ?para ''type'' = Some (JStr ''paragraph'')" "''text'' \<in> set (textFields ''paragraph'')"
    "?tm (blockPathOf 0 @ ''.data.'' @ ''text'') = Some ''Hallo Welt''"
    by code_simp+
  have c9: "jget (blocksOf frameRebuilt ! 0) [Key ''data'', Key ''text''] = Some (JStr ''Hallo Welt'')"
    using fields [of ?para 0 "blocksOf frameRebuilt ! 0"
        "[(''text'', JStr ''Hello world''), (''level'', JNum ''2'')]"] blocks(1) para
    unfolding b0 by blast
  have list: "map_of ?list ''data'' = Some (JObj [(''style'', JStr ''ordered''),
                   (''items'', JArr [JStr ''First item'', JStr ''Second item''])])"
    "map_of ?list ''type'' = Some (JStr ''list'')"
    "map_of [(''style'', JStr ''ordered''), (''items'', JArr [JStr ''First item'', JStr ''Second item''])] ''items''
       = Some (JArr [JStr ''First item'', JStr ''Second item''])"
    "0 < length [JStr ''First item'', JStr ''Second item'']"
    "?tm (blockPathOf 1 @ ''.data.items['' @ showNat 0 @ '']'') = Some ''First item''"
    "''First item'' \<noteq> []"
    by code_simp+
  have c10: "jget (blocksOf frameRebuilt ! 1) [Key ''data'', Key ''items'', Idx 0] = Some (JStr ''First item'')"
    using fields [of ?list 1 "blocksOf frameRebuilt ! 1"
        "[(''style'', JStr ''ordered''), (''items'', JArr [JStr ''First item'', JStr ''Second item''])]"]
      blocks(2) list
    unfolding b1 by blast
  have tdata: "map_of ?table ''data'' = Some (JObj ?tdata)"
    by simp
  note tableBlock = others [of ?table 2 "blocksOf frameRebuilt ! 2" ?tdata,
      OF blocks(3) [unfolded b2] tdata]
  have cell: "map_of ?table ''type'' = Some (JStr ''table'')"
    "map_of ?tdata ''content'' = Some (JArr [JArr [JStr ''Name'', JStr ''Price''],
                                              JArr [JStr ''Headphones'', JStr ''99'']])"
    "0 < length [JArr [JStr ''Name'', JStr ''Price''], JArr [JStr ''Headphones'', JStr ''99'']]"
    "[JArr [JStr ''Name'', JStr ''Price''], JArr [JStr ''Headphones'', JStr ''99'']] ! 0
       = JArr [JStr ''Name'', JStr ''Price'']"
    "1 < length [JStr ''Name'', JStr ''Price'']"
    "?tm (blockPathOf 2 @ ''.data.content['' @ showNat 0 @ '']['' @ showNat 1 @ '']'') = Some ''Preis''"
    "''Preis'' \<noteq> []"
    by code_simp+
  have c11: "jget (blocksOf frameRebuilt ! 2) [Key ''data'', Key ''content'', Idx 0, Idx 1]
      = Some (JStr ''Preis'')"
    by (rule tableBlock [THEN conjunct1, rule_format]) (rule conjI cell)+
  have cdata: "map_of ?check ''data'' = Some (JObj ?cdata)"
    by simp
  note checkBlock = others [of ?check 3 "blocksOf frameRebuilt ! 3" ?cdata,
      OF blocks(4) [unfolded b3] cdata]
  have item: "map_of ?check ''type'' = Some (JStr ''checklist'')"
    "map_of ?cdata ''items'' = Some (JArr [JObj [(''text'', JStr ''Buy milk''), (''checked'', JBool False)]])"
    "0 < length [JObj [(''text'', JStr ''Buy milk''), (''checked'', JBool False)]]"
    "[JObj [(''text'', JStr ''Buy milk''), (''checked'', JBool False)]] ! 0
       = JObj [(''text'', JStr ''Buy milk''), (''checked'', JBool False)]"
    "?tm (blockPathOf 3 @ ''.data.items['' @ showNat 0 @ ''].text'') = Some ''Milch kaufen''"
    by code_simp+
  have c12: "jget (blocksOf frameRebuilt ! 3) [Key ''data'', Key ''items'', Idx 0, Key ''text'']
      = Some (JStr ''Milch kaufen'')"
    by (rule checkBlock [THEN conjunct2, THEN conjunct1, rule_format]) (rule conjI item)+
  have odata: "map_of ?other ''data'' = Some (JObj ?odata)"
    by simp
  note otherBlock = others [of ?other 4 "blocksOf frameRebuilt ! 4" ?odata,
      OF blocks(5) [unfolded b4] odata]
  have custom: "customType (map_of ?other ''type'')"
    by code_simp
  have label: "map_of ?odata ''label'' = Some (JStr ''Read more'')"
    "?tm (blockPathOf 4 @ ''.data.'' @ ''label'') = Some ''Mehr lesen''"
    by code_simp+
  have c13: "jget (blocksOf frameRebuilt ! 4) [Key ''data'', Key ''label''] = Some (JStr ''Mehr lesen'')"
    by (rule otherBlock [THEN conjunct2, THEN conjunct2, THEN conjunct1, rule_format])
       (rule conjI custom label)+
  have link: "map_of ?odata ''links'' = Some (JArr [JStr ''Home page'', JStr ''Contact us''])"
    "1 < length [JStr ''Home page'', JStr ''Contact us'']"
    "?tm (blockPathOf 4 @ ''.data.'' @ ''links'' @ ''['' @ showNat 1 @ '']'') = Some ''Kontakt''"
    by code_simp+
  have c14: "jget (blocksOf frameRebuilt ! 4) [Key ''data'', Key ''links'', Idx 1] = Some (JStr ''Kontakt'')"
    by (rule otherBlock [THEN conjunct2, THEN conjunct2, THEN conjunct2, rule_format])
       (rule conjI custom link)+
  show ?thesis
    using c1 root c2 c3 c4 c5 c6 c7 c8 c9 c10 c11 c12 c13 c14 by blast
qed

subsection \<open>Rebuilding a document from its own extraction\<close>

text \<open>An Editor.js document whose paragraph carries markup, its extraction, and the
  document without the markup.\<close>

definition markupDocument :: json where
  "markupDocument =
     JObj [(''blocks'',
              JArr [JObj [(''type'', JStr ''paragraph''),
                          (''data'', JObj [(''text'', JStr ''<b>Hello</b> world'')])]])]"

definition markupFragments :: "ExtractedText list" where
  "markupFragments = [mkFragment ''blocks[0].data.text'' ''Hello world'' ''paragraph block'' T_text]"

definition markupText :: string where
  "markupText = ''{'blocks':[{'type':'paragraph','data':{'text':'<b>Hello</b> world'}}]}''"

definition strippedText :: string where
  "strippedText = ''{'blocks':[{'type':'paragraph','data':{'text':'Hello world'}}]}''"

definition markupRebuilt :: json where
  "markupRebuilt =
     JObj [(''blocks'',
              JArr [JObj [(''type'', JStr ''paragraph''),
                          (''data'', JObj [(''text'', JStr ''Hello world'')])]])]"

definition markupParse :: "string \<Rightarrow> json option" where
  "markupParse = map_of [(markupText, markupDocument)]"

definition markupPrint :: "json \<Rightarrow> string" where
  "markupPrint = printTable [(markupDocument, markupText), (markupRebuilt, strippedText)]"

text \<open>A document of the generic JSON parser, and a Markdown document.\<close>

definition productText :: string where
  "productText = ''{'name':'Premium Wireless Headphones','price':99.5,'tags':['Noise cancelling','Hi'],'seo':{'title':'Buy headphones online','index':true}}''"

definition articleText :: string where
  "articleText = ''{'time':1700000000,'blocks':[{'type':'header','data':{'text':'Release notes','level':1}},{'type':'quote','data':{'text':'Ship early','caption':'The team'}},{'type':'list','data':{'style':'unordered','items':['Faster search','Fewer bugs']}}],'version':'2.28.0'}''"

text \<open>An Editor.js document with a table, a checklist and a block of a type of its own,
  and a GrapeJS document; none of their texts carries markup.\<close>

definition mixedDocument :: json where
  "mixedDocument =
     JObj [(''blocks'',
              JArr [JObj [(''type'', JStr ''header''),
                          (''data'', JObj [(''text'', JStr ''Price list''), (''level'', JNum ''2'')])],
                    JObj [(''type'', JStr ''table''),
                          (''data'', JObj [(''withHeadings'', JBool True),
                                           (''content'', JArr [JArr [JStr ''Name'', JStr ''Price''],
                                                               JArr [JStr ''Headphones'', JStr ''99'']])])],
                    JObj [(''type'', JStr ''checklist''),
                          (''data'', JObj [(''items'', JArr [JObj [(''text'', JStr ''Buy milk''),
                                                                   (''checked'', JBool False)]])])],
                    JObj [(''type'', JStr ''callout''),
                          (''data'', JObj [(''label'', JStr ''Read more''),
                                           (''links'', JArr [JStr ''Home page'', JStr ''Contact us''])])]])]"

definition mixedText :: string where
  "mixedText = ''{'blocks':[{'type':'header','data':{'text':'Price list','level':2}},{'type':'table','data':{'withHeadings':true,'content':[['Name','Price'],['Headphones','99']]}},{'type':'checklist','data':{'items':[{'text':'Buy milk','checked':false}]}},{'type':'callout','data':{'label':'Read more','links':['Home page','Contact us']}}]}''"

definition pageDocument :: json where
  "pageDocument =
     JObj [(''components'',
              JArr [JObj [(''type'', JStr ''text''), (''content'', JStr ''Welcome home''),
                          (''attributes'', JObj [(''title'', JStr ''Main heading''), (''id'', JStr ''h1'')]),
                          (''traits'', JArr [JObj [(''name'', JStr ''placeholder''),
                                                   (''value'', JStr ''Your name'')]]),
                          (''components'',
                             JArr [JObj [(''tagName'', JStr ''span''), (''content'', JStr ''Read more'')]])]]),
           (''styles'', JArr [])]"

definition pageText :: string where
  "pageText = ''{'components':[{'type':'text','content':'Welcome home','attributes':{'title':'Main heading','id':'h1'},'traits':[{'name':'placeholder','value':'Your name'}],'components':[{'tagName':'span','content':'Read more'}]}],'styles':[]}''"

definition productDocument :: json where
  "productDocument =
     JObj [(''name'', JStr ''Premium Wireless Headphones''),
           (''price'', JNum ''99.5''),
           (''tags'', JArr [JStr ''Noise cancelling'', JStr ''Hi'']),
           (''seo'', JObj [(''title'', JStr ''Buy headphones online''), (''index'', JBool True)])]"

definition noteDocument :: string where
  "noteDocument = ''# Release notes'' @ [CHR 0x0A] @ ''A short [link](https://example.com) here''"

text \<open>An Editor.js document without markup: a header, a quote and a list.\<close>

definition articleDocument :: json where
  "articleDocument =
     JObj [(''time'', JNum ''1700000000''),
           (''blocks'',
              JArr [JObj [(''type'', JStr ''header''),
                          (''data'', JObj [(''text'', JStr ''Release notes''), (''level'', JNum ''1'')])],
                    JObj [(''type'', JStr ''quote''),
                          (''data'', JObj [(''text'', JStr ''Ship early''), (''caption'', JStr ''The team'')])],
                    JObj [(''type'', JStr ''list''),
                          (''data'', JObj [(''style'', JStr ''unordered''),
                                           (''items'', JArr [JStr ''Faster search'', JStr ''Fewer bugs''])])]]),
           (''version'', JStr ''2.28.0'')]"

lemma isTranslated_untranslated: "f \<in> set (untranslated fs) \<Longrightarrow> \<not> isTranslated f"
  by (auto simp: untranslated_def isTranslated_def)

lemma foldl_fixed: "(\<And>x. x \<in> set xs \<Longrightarrow> g s x = s) \<Longrightarrow> foldl g s xs = s"
  by (induction xs) auto

lemma MarkdownParser_reconstruct_untranslated: "MarkdownParser_reconstruct D (untranslated fs) = D"
  unfolding MarkdownParser_reconstruct_def
  by (rule foldl_fixed) (simp add: markdownReplace_def isTranslated_untranslated)

lemma HtmlParser_reconstruct_untranslated: "HtmlParser_reconstruct D (untranslated fs) = D"
  unfolding HtmlParser_reconstruct_def
  by (rule foldl_fixed) (simp add: htmlReplace_def isTranslated_untranslated)




end
